theory Spec2Isabelle
  imports Complex_Main
begin

section \<open>Python string helpers\<close>

text \<open>
  Python strings are modelled as \<open>string\<close> (lists of 8-bit characters). The helpers
  below are the string methods and operators the source uses: the slice \<open>s[:n]\<close> is
  \<open>take n s\<close>, the slice \<open>s[n:]\<close> is \<open>drop n s\<close>, \<open>a in b\<close> and Cypher's
  \<open>CONTAINS\<close> are \<open>contains\<close>, \<open>str.strip()\<close> is \<open>strip\<close>, \<open>str.find\<close> is
  \<open>py_find\<close>, \<open>sep.join(xs)\<close> is \<open>join sep xs\<close> and \<open>str(n)\<close> on an integer is
  \<open>str_int\<close>.
\<close>

fun starts_with :: "'a list \<Rightarrow> 'a list \<Rightarrow> bool" where
  "starts_with [] hay = True"
| "starts_with (x # xs) [] = False"
| "starts_with (x # xs) (y # ys) = (x = y \<and> starts_with xs ys)"

fun contains :: "'a list \<Rightarrow> 'a list \<Rightarrow> bool" where
  "contains needle [] = (needle = [])"
| "contains needle (y # ys) = (starts_with needle (y # ys) \<or> contains needle ys)"

fun py_find :: "'a list \<Rightarrow> 'a list \<Rightarrow> nat option" where
  "py_find needle [] = (if needle = [] then Some 0 else None)"
| "py_find needle (y # ys) =
     (if starts_with needle (y # ys) then Some 0
      else map_option Suc (py_find needle ys))"

definition py_isspace :: "char \<Rightarrow> bool" where
  "py_isspace c =
     (c \<in> set [CHR 0x09, CHR 0x0A, CHR 0x0B, CHR 0x0C, CHR 0x0D,
                CHR 0x1C, CHR 0x1D, CHR 0x1E, CHR 0x1F, CHR 0x20, CHR 0x85, CHR 0xA0])"

definition strip :: "string \<Rightarrow> string" where
  "strip s = rev (dropWhile py_isspace (rev (dropWhile py_isspace s)))"

fun join :: "'a list \<Rightarrow> 'a list list \<Rightarrow> 'a list" where
  "join sep [] = []"
| "join sep [x] = x"
| "join sep (x # y # ys) = x @ sep @ join sep (y # ys)"

definition digit_char :: "nat \<Rightarrow> char" where
  "digit_char d = ''0123456789'' ! d"

fun str_nat :: "nat \<Rightarrow> string" where
  "str_nat n =
     (if n < 10 then [digit_char n] else str_nat (n div 10) @ [digit_char (n mod 10)])"

definition str_int :: "int \<Rightarrow> string" where
  "str_int i = (if i < 0 then CHR ''-'' # str_nat (nat (- i)) else str_nat (nat i))"

section \<open>Exceptions\<close>

text \<open>
  Every exception the modelled code raises or receives from a library is a value of
  \<open>error\<close>; a function that may raise returns \<open>error + 'a\<close> with \<open>Inl\<close> the raised
  exception. \<open>LibraryError\<close> stands for any exception thrown by an external library
  (transformers, sentence-transformers, the Neo4j driver), carrying its message.
\<close>

datatype error =
    ValueError string
  | TypeError string
  | LibraryError string
  | HTTPException nat string

fun str_error :: "error \<Rightarrow> string" where
  "str_error (ValueError m) = m"
| "str_error (TypeError m) = m"
| "str_error (LibraryError m) = m"
| "str_error (HTTPException code m) = m"

text \<open>
  Observable effects: calls into the generation engine and the ranker, and log lines.
  A function with effects returns the list of its events, oldest first, with its result.
\<close>

datatype event =
    QACall string string
  | LLMCall string
  | RankCall
  | LogError string
  | LogWarning string

section \<open>models/schemas.py\<close>

record image =
  img_page :: int
  img_index :: int
  img_type :: string
  img_data :: string

record Paper =
  p_id :: string
  p_title :: string
  p_authors :: "string list"
  p_abstract :: string
  p_year :: int
  p_url :: string
  has_full_text :: bool
  has_images :: bool
  full_text :: "string option"
  images :: "image list option"

record QuestionRequest =
  rq_paper :: "Paper list"
  rq_question :: string

section \<open>agents/qa\_agent.py\<close>

text \<open>
  The external models are parameters. \<open>qa_pipeline q c\<close> is the extractive
  question-answering pipeline: it raises, or returns a dict whose \<open>score\<close> entry may be
  missing. \<open>llm p\<close> is tokenizer.encode, llm.generate and tokenizer.decode in sequence
  on the prompt \<open>p\<close>: it raises, or returns the decoded text. \<open>dot_scores\<close> is the
  sentence-embedding model followed by \<open>np.dot\<close>: it raises, or returns one score per
  context.
\<close>

record 'c engine =
  qa_pipeline :: "string \<Rightarrow> string \<Rightarrow> error + real option"
  llm :: "string \<Rightarrow> error + string"
  dot_scores :: "'c list \<Rightarrow> string \<Rightarrow> error + real list"

record answer =
  a_text :: string
  a_confidence :: real

text \<open>The dict built by the second (effective) definition of \<open>_process_paper\<close>.\<close>

record paper_context =
  c_paper_id :: string
  c_title :: string
  c_text :: string
  c_year :: int

record source =
  s_paper_id :: string
  s_title :: string
  s_year :: int
  s_excerpt :: string

record response =
  r_text :: string
  r_confidence :: real
  r_sources :: "source list"
  r_context_used :: string

definition answer_prompt :: "string \<Rightarrow> string" where
  "answer_prompt question = ''Question: '' @ question @ ''\<newline>Answer:''"

definition failed_answer :: answer where
  "failed_answer = \<lparr>a_text = ''Failed to generate answer'', a_confidence = 0\<rparr>"

text \<open>
  The body of the \<open>try\<close> block of \<open>_generate_answer\<close>: the QA pipeline on the first
  500 characters of the context, then the language model on a prompt made of the
  question alone.
\<close>

definition generate_answer_try :: "'c engine \<Rightarrow> string \<Rightarrow> string \<Rightarrow> event list \<times> (error + answer)" where
  "generate_answer_try eng question ctx =
     (case qa_pipeline eng question (take 500 ctx) of
        Inl e \<Rightarrow> ([QACall question (take 500 ctx)], Inl e)
      | Inr qa_score \<Rightarrow>
          (let prompt = answer_prompt question in
           case llm eng prompt of
             Inl e \<Rightarrow> ([QACall question (take 500 ctx), LLMCall prompt], Inl e)
           | Inr generated_text \<Rightarrow>
               ([QACall question (take 500 ctx), LLMCall prompt],
                Inr \<lparr>a_text = strip (drop (length prompt) generated_text),
                     a_confidence = (case qa_score of Some s \<Rightarrow> s | None \<Rightarrow> 0)\<rparr>)))"

text \<open>\<open>_generate_answer\<close>: \<open>except Exception\<close> logs and returns the fixed answer.\<close>

definition generate_answer :: "'c engine \<Rightarrow> string \<Rightarrow> string \<Rightarrow> event list \<times> (error + answer)" where
  "generate_answer eng question ctx =
     (case generate_answer_try eng question ctx of
        (evs, Inl e) \<Rightarrow>
          (evs @ [LogError (''Error generating answer: '' @ str_error e)], Inr failed_answer)
      | (evs, Inr a) \<Rightarrow> (evs, Inr a))"

text \<open>
  \<open>_process_paper\<close> is defined twice in the class body; Python binds the name to the
  later definition (source lines 179 to 196), which reads the abstract only.
\<close>

definition process_paper :: "Paper \<Rightarrow> string \<Rightarrow> paper_context option" where
  "process_paper paper question =
     (let content = p_abstract paper in
      if content = [] then None
      else Some \<lparr>c_paper_id = p_id paper, c_title = p_title paper,
                 c_text = content, c_year = p_year paper\<rparr>)"

text \<open>
  The earlier definition of \<open>_process_paper\<close> (source lines 69 to 89), which the later
  one shadows, chooses its content by this rule.
\<close>

definition shadowed_process_paper_content :: "Paper \<Rightarrow> string option" where
  "shadowed_process_paper_content paper =
     (if p_abstract paper = [] \<and> (full_text paper = None \<or> full_text paper = Some [])
      then None
      else Some (case full_text paper of
                   None \<Rightarrow> p_abstract paper
                 | Some ft \<Rightarrow> if ft = [] then p_abstract paper else ft))"

fun gather_contexts :: "Paper list \<Rightarrow> string \<Rightarrow> paper_context list" where
  "gather_contexts [] question = []"
| "gather_contexts (paper # papers) question =
     (case process_paper paper question of
        None \<Rightarrow> gather_contexts papers question
      | Some c \<Rightarrow> c # gather_contexts papers question)"

text \<open>
  \<open>rank_contexts\<close> of services/text\_processing.py: \<open>np.argsort(scores)[::-1]\<close> is the
  list of indices by descending score (the order among equal scores, which numpy leaves
  open, is here that of a stable sort, reversed), and indexing the contexts with an index
  out of range raises.
\<close>

definition argsort_desc :: "real list \<Rightarrow> nat list" where
  "argsort_desc scores = rev (sort_key (\<lambda>i. scores ! i) [0 ..< length scores])"

definition rank_contexts :: "'c engine \<Rightarrow> 'c list \<Rightarrow> string \<Rightarrow> error + 'c list" where
  "rank_contexts eng contexts query =
     (case dot_scores eng contexts query of
        Inl e \<Rightarrow> Inl e
      | Inr scores \<Rightarrow>
          if length scores \<le> length contexts
          then Inr (map (\<lambda>i. contexts ! i) (argsort_desc scores))
          else Inl (LibraryError ''list index out of range''))"

definition combine_contexts :: "paper_context list \<Rightarrow> string" where
  "combine_contexts contexts =
     join ''\<newline>\<newline>''
       (map (\<lambda>c. ''From '' @ c_title c @ '' ('' @ str_int (c_year c) @ ''):\<newline>'' @ c_text c)
            contexts)"

text \<open>
  \<open>_format_response\<close> is also defined twice; the later definition (source lines 211 to
  226) is the one in effect.
\<close>

definition format_response :: "answer \<Rightarrow> paper_context list \<Rightarrow> string \<Rightarrow> response" where
  "format_response ans contexts combined_context =
     \<lparr>r_text = a_text ans,
      r_confidence = a_confidence ans,
      r_sources = map (\<lambda>c. \<lparr>s_paper_id = c_paper_id c, s_title = c_title c,
                             s_year = c_year c,
                             s_excerpt = take 200 (c_text c) @ ''...''\<rparr>) contexts,
      r_context_used = take 1000 combined_context\<rparr>"

text \<open>The body of the \<open>try\<close> block of \<open>answer_question\<close>.\<close>

definition answer_question_try :: "paper_context engine \<Rightarrow> Paper list \<Rightarrow> string \<Rightarrow> event list \<times> (error + response)" where
  "answer_question_try eng papers question =
     (if length papers = 1 then
        (case process_paper (hd papers) question of
           None \<Rightarrow> ([], Inl (ValueError ''No relevant content found in paper''))
         | Some c \<Rightarrow>
             (case generate_answer eng question (c_text c) of
                (evs, Inl e) \<Rightarrow> (evs, Inl e)
              | (evs, Inr ans) \<Rightarrow> (evs, Inr (format_response ans [c] (c_text c)))))
      else
        (let all_contexts = gather_contexts papers question in
         case rank_contexts eng all_contexts question of
           Inl e \<Rightarrow> ([RankCall], Inl e)
         | Inr sorted_contexts \<Rightarrow>
             (let combined_context = combine_contexts (take 3 sorted_contexts) in
              case generate_answer eng question combined_context of
                (evs, Inl e) \<Rightarrow> (RankCall # evs, Inl e)
              | (evs, Inr ans) \<Rightarrow>
                  (RankCall # evs,
                   Inr (format_response ans (take 3 sorted_contexts) combined_context)))))"

text \<open>
  \<open>answer_question\<close>: the validation precedes the \<open>try\<close>; the handler logs and
  re-raises.
\<close>

definition answer_question :: "paper_context engine \<Rightarrow> Paper list \<Rightarrow> string \<Rightarrow> event list \<times> (error + response)" where
  "answer_question eng papers question =
     (if papers = [] \<or> question = [] then
        ([], Inl (ValueError ''Papers list and question cannot be empty''))
      else
        (case answer_question_try eng papers question of
           (evs, Inl e) \<Rightarrow>
             (evs @ [LogError (''Error in answer_question: '' @ str_error e)], Inl e)
         | (evs, Inr r) \<Rightarrow> (evs, Inr r)))"

section \<open>main.py: the /answer endpoint\<close>

record answer_reply =
  ar_answer :: string
  ar_confidence :: real
  ar_sources :: "source list"
  ar_context_used :: string

definition answer_endpoint_try :: "paper_context engine \<Rightarrow> QuestionRequest \<Rightarrow> event list \<times> (error + answer_reply)" where
  "answer_endpoint_try eng request =
     (if rq_paper request = [] \<or> rq_question request = [] then
        ([], Inl (HTTPException 422 ''Both paper_ids and question are required''))
      else
        (let papers = rq_paper request in
         if papers = [] then
           ([], Inl (HTTPException 404 ''No papers provided for answering the question''))
         else
           (case answer_question eng papers (rq_question request) of
              (evs, Inl e) \<Rightarrow> (evs, Inl e)
            | (evs, Inr r) \<Rightarrow>
                (evs, Inr \<lparr>ar_answer = r_text r, ar_confidence = r_confidence r,
                           ar_sources = r_sources r,
                           ar_context_used = r_context_used r\<rparr>))))"

text \<open>
  The handlers of the endpoint: an \<open>HTTPException\<close> is logged and re-raised, any other
  exception is logged and turned into a 500 carrying its message.
\<close>

definition answer_endpoint :: "paper_context engine \<Rightarrow> QuestionRequest \<Rightarrow> event list \<times> (error + answer_reply)" where
  "answer_endpoint eng request =
     (case answer_endpoint_try eng request of
        (evs, Inl (HTTPException code detail)) \<Rightarrow>
          (evs @ [LogError (''Answer error: '' @ detail)], Inl (HTTPException code detail))
      | (evs, Inl e) \<Rightarrow>
          (evs @ [LogError (''Answer error: '' @ str_error e)],
           Inl (HTTPException 500 (str_error e)))
      | (evs, Inr reply) \<Rightarrow> (evs, Inr reply))"

definition engine_calls :: "event list \<Rightarrow> event list" where
  "engine_calls evs =
     filter (\<lambda>ev. case ev of QACall q c \<Rightarrow> True | LLMCall p \<Rightarrow> True | RankCall \<Rightarrow> True
                            | LogError m \<Rightarrow> False | LogWarning m \<Rightarrow> False) evs"

section \<open>agents/future\_works\_agent.py\<close>

record plan_result =
  improvement_plan :: string
  findings :: "string list"
  metrics :: "(string \<times> real) list"

definition create_prompt :: "Paper list \<Rightarrow> string" where
  "create_prompt papers =
     (let papers_text =
            join ''\<newline>\<newline>''
              (map (\<lambda>p. ''Title: '' @ p_title p @ ''\<newline>Year: '' @ str_int (p_year p)
                          @ ''\<newline>Abstract: '' @ p_abstract p) papers)
      in ''Using the key findings from the following papers:\<newline>\<newline>''
         @ papers_text @ ''\<newline>\<newline>''
         @ ''Generate an improvement plan that includes novel contributions and suggestions for new research directions. ''
         @ ''Structure it as a cohesive plan.\<newline>\<newline>''
         @ ''Summary of the work presented:\<newline>'')"

definition summary_marker :: string where
  "summary_marker = ''Summary of the work presented:''"

text \<open>
  \<open>llm_generate\<close>: the text before and including the marker is cut off when the marker
  occurs; any exception becomes the fixed failure text.
\<close>

definition llm_generate :: "'c engine \<Rightarrow> string \<Rightarrow> event list \<times> (error + string)" where
  "llm_generate eng prompt =
     (case llm eng prompt of
        Inl e \<Rightarrow>
          ([LLMCall prompt, LogError (''Synchronous LLM generation error: '' @ str_error e)],
           Inr ''Failed to generate improvement plan.'')
      | Inr decoded \<Rightarrow>
          ([LLMCall prompt],
           Inr (case py_find summary_marker decoded of
                  None \<Rightarrow> decoded
                | Some summary_start \<Rightarrow>
                    strip (drop (summary_start + length summary_marker) decoded))))"

definition llm_generate_async :: "'c engine \<Rightarrow> string \<Rightarrow> event list \<times> (error + string)" where
  "llm_generate_async eng prompt =
     (case llm_generate eng prompt of
        (evs, Inl e) \<Rightarrow>
          (evs @ [LogError (''LLM generation error: '' @ str_error e)],
           Inr ''Failed to generate improvement plan.'')
      | (evs, Inr plan) \<Rightarrow> (evs, Inr plan))"

definition analyze_improvement_plan :: "string \<Rightarrow> string list \<times> (string \<times> real) list" where
  "analyze_improvement_plan plan =
     ([''Finding 1: Enhanced methodology improves accuracy by 15%.'',
       ''Finding 2: Incorporating X technique reduces computational overhead.''],
      [(''accuracy_improvement'', 15 / 100),
       (''computational_efficiency_gain'', 20 / 100)])"

definition create_improvement_plan :: "'c engine \<Rightarrow> Paper list \<Rightarrow> event list \<times> (error + plan_result)" where
  "create_improvement_plan eng papers =
     (let prompt = create_prompt papers in
      case llm_generate_async eng prompt of
        (evs, Inl e) \<Rightarrow>
          (evs @ [LogError (''Review generation error: '' @ str_error e)], Inl e)
      | (evs, Inr plan) \<Rightarrow>
          (let (fs, ms) = analyze_improvement_plan plan in
           (evs, Inr \<lparr>improvement_plan = plan, findings = fs, metrics = ms\<rparr>)))"

section \<open>The property graph\<close>

text \<open>
  The database is a property graph. A Paper node carries its \<open>id\<close> and the properties
  the two writers set on it; a property that was never set, or was set to null, is
  \<open>None\<close>. The identity of a Paper node is its position in \<open>paper_nodes\<close>, so two
  nodes with the same \<open>id\<close> can be told apart. Author and Keyword nodes have the single
  property \<open>name\<close> and Image nodes the properties page, index and type; they are only
  ever created by \<open>MERGE\<close> on those properties and are identified with them. The
  relationships are lists of pairs of end points.
\<close>

record paper_node =
  n_id :: string
  n_title :: "string option"
  n_summary :: "string option"
  n_abstract :: "string option"
  n_year :: "int option"
  n_url :: "string option"
  n_full_text :: "string option"
  n_updated_at :: "nat option"

type_synonym image_key = "int \<times> int \<times> string"

record graph =
  paper_nodes :: "paper_node list"
  author_nodes :: "string list"
  keyword_nodes :: "string list"
  image_nodes :: "image_key list"
  authored :: "(string \<times> nat) list"
  has_keyword :: "(nat \<times> string) list"
  has_image :: "(nat \<times> image_key) list"

definition empty_graph :: graph where
  "empty_graph = \<lparr>paper_nodes = [], author_nodes = [], keyword_nodes = [], image_nodes = [],
                   authored = [], has_keyword = [], has_image = []\<rparr>"

text \<open>
  The five properties by which the two reading queries group their rows.
\<close>

type_synonym row_key = "string \<times> string option \<times> string option \<times> int option \<times> string option"

text \<open>
  The state of the driver and of the database behind it at the time of a call: whether
  opening a session raises, whether running the query (or committing) raises, the value
  of \<open>datetime()\<close>, and the order in which the database emits the groups of an
  aggregation that no \<open>ORDER BY\<close> follows. That order is the database's own choice:
  it emits the groups by ascending \<open>group_order\<close> of their grouping key (as a hash
  aggregation emits them by the hash of the key), and groups of equal \<open>group_order\<close>
  in the order of their first rows.
\<close>

record driver =
  session_raises :: "error option"
  run_raises :: "error option"
  now :: nat
  group_order :: "row_key \<Rightarrow> nat"

subsection \<open>Cypher clauses\<close>

text \<open>\<open>MATCH (p:Paper {id: $id})\<close>: the positions of the Paper nodes with that id.\<close>

definition match_paper :: "graph \<Rightarrow> string \<Rightarrow> nat list" where
  "match_paper g pid =
     filter (\<lambda>p. n_id (paper_nodes g ! p) = pid) [0 ..< length (paper_nodes g)]"

text \<open>
  \<open>MERGE (p:Paper {id: $id})\<close>: binds every matching node, and creates a node with
  that id and no other property when there is none.
\<close>

definition merge_paper :: "graph \<Rightarrow> string \<Rightarrow> graph \<times> nat list" where
  "merge_paper g pid =
     (if match_paper g pid = [] then
        (g\<lparr>paper_nodes := paper_nodes g @
              [\<lparr>n_id = pid, n_title = None, n_summary = None, n_abstract = None,
                n_year = None, n_url = None, n_full_text = None, n_updated_at = None\<rparr>]\<rparr>,
         [length (paper_nodes g)])
      else (g, match_paper g pid))"

text \<open>\<open>SET p.x = ...\<close> on the node bound in one row.\<close>

definition set_node :: "(paper_node \<Rightarrow> paper_node) \<Rightarrow> nat \<Rightarrow> graph \<Rightarrow> graph" where
  "set_node f p g = g\<lparr>paper_nodes := (paper_nodes g)[p := f (paper_nodes g ! p)]\<rparr>"

text \<open>\<open>UNWIND $xs AS x\<close>: every row once for every element of the list.\<close>

definition unwind :: "'r list \<Rightarrow> 'x list \<Rightarrow> ('r \<times> 'x) list" where
  "unwind rows xs = concat (map (\<lambda>r. map (\<lambda>x. (r, x)) xs) rows)"

text \<open>\<open>MERGE\<close> of a node or of a relationship: created unless it exists.\<close>

definition merge_item :: "'a \<Rightarrow> 'a list \<Rightarrow> 'a list" where
  "merge_item x xs = (if x \<in> set xs then xs else xs @ [x])"

definition merge_author :: "nat \<times> string \<Rightarrow> graph \<Rightarrow> graph" where
  "merge_author row g =
     g\<lparr>author_nodes := merge_item (snd row) (author_nodes g),
       authored := merge_item (snd row, fst row) (authored g)\<rparr>"

definition merge_keyword :: "nat \<times> string \<Rightarrow> graph \<Rightarrow> graph" where
  "merge_keyword row g =
     g\<lparr>keyword_nodes := merge_item (snd row) (keyword_nodes g),
       has_keyword := merge_item (fst row, snd row) (has_keyword g)\<rparr>"

definition image_key_of :: "image \<Rightarrow> image_key" where
  "image_key_of im = (img_page im, img_index im, img_type im)"

definition merge_image :: "nat \<times> image \<Rightarrow> graph \<Rightarrow> graph" where
  "merge_image row g =
     g\<lparr>image_nodes := merge_item (image_key_of (snd row)) (image_nodes g),
       has_image := merge_item (fst row, image_key_of (snd row)) (has_image g)\<rparr>"

text \<open>The end points of the relationships of a Paper node.\<close>

definition authors_of :: "graph \<Rightarrow> nat \<Rightarrow> string list" where
  "authors_of g p = map fst (filter (\<lambda>e. snd e = p) (authored g))"

definition keywords_of :: "graph \<Rightarrow> nat \<Rightarrow> string list" where
  "keywords_of g p = map snd (filter (\<lambda>e. fst e = p) (has_keyword g))"

definition papers_with_keyword :: "graph \<Rightarrow> string \<Rightarrow> nat list" where
  "papers_with_keyword g k = map fst (filter (\<lambda>e. snd e = k) (has_keyword g))"

text \<open>
  \<open>MATCH (a:Author)-[:AUTHORED]->(p) MATCH (p)-[:HAS_KEYWORD]->(k)\<close>: every row once
  for every author and every keyword of its paper, and not at all when the paper has
  no author or no keyword.
\<close>

definition expand_authors_keywords :: "graph \<Rightarrow> nat list \<Rightarrow> (nat \<times> string \<times> string) list" where
  "expand_authors_keywords g rows =
     concat (map (\<lambda>p. concat (map (\<lambda>a. map (\<lambda>k. (p, a, k)) (keywords_of g p))
                                  (authors_of g p))) rows)"

text \<open>\<open>DISTINCT\<close>: the values in the order of their first occurrence.\<close>

fun collect_distinct :: "'a list \<Rightarrow> 'a list" where
  "collect_distinct [] = []"
| "collect_distinct (x # xs) = x # collect_distinct (filter (\<lambda>y. y \<noteq> x) xs)"

section \<open>agents/db\_agent.py\<close>

text \<open>
  The dataclass \<open>Paper\<close> of db\_agent.py. Python does not enforce the annotations, and
  \<open>_query_papers_tx\<close> and \<open>_get_related_papers_tx\<close> fill the fields from the
  properties of a node, which may be null: the scalar fields other than the id are
  options, and so is \<open>keywords\<close>, whose default is \<open>None\<close>.
\<close>

record db_paper =
  dp_id :: string
  dp_title :: "string option"
  dp_authors :: "string list"
  dp_summary :: "string option"
  dp_year :: "int option"
  dp_url :: "string option"
  dp_keywords :: "string list option"

text \<open>
  \<open>_create_paper_tx\<close>, clause by clause. The result of the query has one row for
  every pair of an author and a keyword of the paper; \<open>result.single() is not None\<close>
  says that there is a row.
\<close>

definition create_paper_tx :: "nat \<Rightarrow> graph \<Rightarrow> db_paper \<Rightarrow> graph \<times> bool" where
  "create_paper_tx time g paper =
     (let (g1, rows1) = merge_paper g (dp_id paper);
          g2 = fold (set_node (\<lambda>n. n\<lparr>n_title := dp_title paper,
                                      n_summary := dp_summary paper,
                                      n_year := dp_year paper,
                                      n_url := dp_url paper,
                                      n_updated_at := Some time\<rparr>)) rows1 g1;
          rows2 = unwind rows1 (dp_authors paper);
          g3 = fold merge_author rows2 g2;
          rows3 = unwind (map fst rows2)
                    (case dp_keywords paper of None \<Rightarrow> [] | Some ks \<Rightarrow> ks);
          g4 = fold merge_keyword rows3 g3
      in (g4, rows3 \<noteq> []))"

text \<open>
  \<open>store_paper\<close>: the session and the transaction are inside the \<open>try\<close>; a
  transaction that raises is rolled back, so the graph is as before.
\<close>

definition store_paper_try :: "driver \<Rightarrow> graph \<Rightarrow> db_paper \<Rightarrow> graph \<times> (error + bool)" where
  "store_paper_try drv g paper =
     (case session_raises drv of
        Some e \<Rightarrow> (g, Inl e)
      | None \<Rightarrow>
          (case run_raises drv of
             Some e \<Rightarrow> (g, Inl e)
           | None \<Rightarrow> (let (g', ok) = create_paper_tx (now drv) g paper in (g', Inr ok))))"

definition store_paper :: "driver \<Rightarrow> graph \<Rightarrow> db_paper \<Rightarrow> graph \<times> event list \<times> (error + bool)" where
  "store_paper drv g paper =
     (case store_paper_try drv g paper of
        (g', Inl e) \<Rightarrow>
          (g', [LogError (''Error storing paper '' @ dp_id paper @ '': '' @ str_error e)],
           Inr False)
      | (g', Inr ok) \<Rightarrow> (g', [], Inr ok))"

text \<open>
  The \<open>WHERE\<close> clause of \<open>_query_papers_tx\<close>. A comparison with a null property is
  null, and a row whose condition is not true is dropped.
\<close>

definition node_matches :: "paper_node \<Rightarrow> string \<Rightarrow> int \<Rightarrow> bool" where
  "node_matches n topic start_year =
     ((case n_year n of None \<Rightarrow> False | Some y \<Rightarrow> start_year \<le> y)
      \<and> ((case n_title n of None \<Rightarrow> False | Some t \<Rightarrow> contains topic t)
         \<or> (case n_summary n of None \<Rightarrow> False | Some s \<Rightarrow> contains topic s)))"

text \<open>
  \<open>RETURN p.id, p.title, p.summary, p.year, p.url, collect(DISTINCT a.name),
  collect(DISTINCT k.name)\<close>: the rows are grouped by the five properties, and every
  group gives one \<open>Paper\<close>. \<open>return_papers\<close> lists the groups in the order of their
  first row; the order in which they reach the caller is decided by the \<open>ORDER BY\<close>
  that follows, or by the database when none follows.
\<close>

definition node_key :: "paper_node \<Rightarrow> row_key" where
  "node_key n = (n_id n, n_title n, n_summary n, n_year n, n_url n)"

definition row_key_of :: "graph \<Rightarrow> nat \<times> string \<times> string \<Rightarrow> row_key" where
  "row_key_of g row = node_key (paper_nodes g ! fst row)"

definition paper_of_group :: "graph \<Rightarrow> (nat \<times> string \<times> string) list \<Rightarrow> row_key \<Rightarrow> db_paper" where
  "paper_of_group g rows key =
     (let group = filter (\<lambda>row. row_key_of g row = key) rows in
      case key of (pid, title, summary, year, url) \<Rightarrow>
        \<lparr>dp_id = pid, dp_title = title,
         dp_authors = collect_distinct (map (\<lambda>row. fst (snd row)) group),
         dp_summary = summary, dp_year = year, dp_url = url,
         dp_keywords = Some (collect_distinct (map (\<lambda>row. snd (snd row)) group))\<rparr>)"

definition return_papers :: "graph \<Rightarrow> (nat \<times> string \<times> string) list \<Rightarrow> db_paper list" where
  "return_papers g rows =
     map (paper_of_group g rows) (collect_distinct (map (row_key_of g) rows))"

text \<open>
  \<open>ORDER BY p.year DESC\<close>: a stable sort on the negated year (the year of a row that
  passed the \<open>WHERE\<close> clause is never null).
\<close>

definition year_desc :: "db_paper \<Rightarrow> int" where
  "year_desc r = (case dp_year r of None \<Rightarrow> 0 | Some y \<Rightarrow> - y)"

text \<open>\<open>_query_papers_tx\<close>; the database rejects a negative \<open>LIMIT\<close>.\<close>

definition query_papers_tx :: "graph \<Rightarrow> string \<Rightarrow> int \<Rightarrow> int \<Rightarrow> error + db_paper list" where
  "query_papers_tx g topic start_year limit =
     (if limit < 0 then Inl (LibraryError ''Invalid input for LIMIT: negative integer'')
      else
        (let rows1 = filter (\<lambda>p. node_matches (paper_nodes g ! p) topic start_year)
                       [0 ..< length (paper_nodes g)];
             rows2 = expand_authors_keywords g rows1
         in Inr (take (nat limit) (sort_key year_desc (return_papers g rows2)))))"

definition read_try :: "driver \<Rightarrow> (error + 'a) \<Rightarrow> error + 'a" where
  "read_try drv tx =
     (case session_raises drv of
        Some e \<Rightarrow> Inl e
      | None \<Rightarrow> (case run_raises drv of Some e \<Rightarrow> Inl e | None \<Rightarrow> tx))"

definition query_papers :: "driver \<Rightarrow> graph \<Rightarrow> string \<Rightarrow> int \<Rightarrow> int \<Rightarrow> event list \<times> (error + db_paper list)" where
  "query_papers drv g topic start_year limit =
     (case read_try drv (query_papers_tx g topic start_year limit) of
        Inl e \<Rightarrow> ([LogError (''Error querying papers: '' @ str_error e)], Inr [])
      | Inr papers \<Rightarrow> ([], Inr papers))"

text \<open>
  \<open>_get_related_papers_tx\<close>. The first two \<open>MATCH\<close> clauses give one row for every
  path from a node with the queried id over a keyword to another Paper node whose id
  differs (such a node is another node, so the two relationships of the path differ).
  \<open>WITH related, count(k)\<close> groups these rows by the related node, and
  \<open>ORDER BY common_keywords DESC LIMIT $limit\<close> belongs to this \<open>WITH\<close>: it
  chooses the related nodes. Two more \<open>MATCH\<close> clauses and the aggregating
  \<open>RETURN\<close> follow, and no \<open>ORDER BY\<close> follows that \<open>RETURN\<close>, so its groups
  reach the caller in the order in which the database emits them.
\<close>

definition shared_rows :: "graph \<Rightarrow> string \<Rightarrow> (nat \<times> string) list" where
  "shared_rows g paper_id =
     concat (map (\<lambda>p. concat (map (\<lambda>k. map (\<lambda>related. (related, k))
                     (filter (\<lambda>related. related < length (paper_nodes g)
                                         \<and> n_id (paper_nodes g ! related) \<noteq> paper_id)
                             (papers_with_keyword g k)))
                   (keywords_of g p)))
             (match_paper g paper_id))"

definition common_keywords :: "graph \<Rightarrow> string \<Rightarrow> (nat \<times> nat) list" where
  "common_keywords g paper_id =
     (let rows = shared_rows g paper_id in
      map (\<lambda>related. (related, length (filter (\<lambda>row. fst row = related) rows)))
          (collect_distinct (map fst rows)))"

definition count_desc :: "nat \<times> nat \<Rightarrow> int" where
  "count_desc row = - int (snd row)"

definition paper_key :: "db_paper \<Rightarrow> row_key" where
  "paper_key r = (dp_id r, dp_title r, dp_summary r, dp_year r, dp_url r)"

definition emitted :: "driver \<Rightarrow> db_paper list \<Rightarrow> db_paper list" where
  "emitted drv groups = sort_key (\<lambda>r. group_order drv (paper_key r)) groups"

definition get_related_papers_tx :: "driver \<Rightarrow> graph \<Rightarrow> string \<Rightarrow> int \<Rightarrow> error + db_paper list" where
  "get_related_papers_tx drv g paper_id limit =
     (if limit < 0 then Inl (LibraryError ''Invalid input for LIMIT: negative integer'')
      else
        (let top = take (nat limit) (sort_key count_desc (common_keywords g paper_id));
             rows = expand_authors_keywords g (map fst top)
         in Inr (emitted drv (return_papers g rows))))"

definition get_related_papers :: "driver \<Rightarrow> graph \<Rightarrow> string \<Rightarrow> int \<Rightarrow> event list \<times> (error + db_paper list)" where
  "get_related_papers drv g paper_id limit =
     (case read_try drv (get_related_papers_tx drv g paper_id limit) of
        Inl e \<Rightarrow> ([LogError (''Error finding related papers: '' @ str_error e)], Inr [])
      | Inr papers \<Rightarrow> ([], Inr papers))"

section \<open>database/neo4j\_handler.py\<close>

text \<open>
  \<open>schemas.Paper\<close> declares no field \<open>keywords\<close>, so
  \<open>getattr(paper, 'keywords', [])\<close> is its default.
\<close>

definition paper_keywords :: "Paper \<Rightarrow> string list" where
  "paper_keywords paper = []"

text \<open>
  \<open>Neo4jHandler._create_paper_tx\<close>: the same clauses with the properties
  \<open>abstract\<close> and \<open>full_text\<close>, followed by the images; an exception of \<open>tx.run\<close> is
  caught inside and gives \<open>False\<close>.
\<close>

definition handler_create_paper_tx :: "driver \<Rightarrow> graph \<Rightarrow> Paper \<Rightarrow> graph \<times> event list \<times> bool" where
  "handler_create_paper_tx drv g paper =
     (case run_raises drv of
        Some e \<Rightarrow>
          (g, [LogError (''Transaction error for paper '' @ p_id paper @ '': '' @ str_error e)],
           False)
      | None \<Rightarrow>
          (let (g1, rows1) = merge_paper g (p_id paper);
               g2 = fold (set_node (\<lambda>n. n\<lparr>n_title := Some (p_title paper),
                                           n_abstract := Some (p_abstract paper),
                                           n_year := Some (p_year paper),
                                           n_url := Some (p_url paper),
                                           n_full_text := full_text paper,
                                           n_updated_at := Some (now drv)\<rparr>)) rows1 g1;
               rows2 = unwind rows1 (p_authors paper);
               g3 = fold merge_author rows2 g2;
               rows3 = unwind (map fst rows2) (paper_keywords paper);
               g4 = fold merge_keyword rows3 g3;
               rows4 = unwind (map fst rows3)
                         (case images paper of None \<Rightarrow> [] | Some ims \<Rightarrow> ims);
               g5 = fold merge_image rows4 g4
           in (g5, [], rows4 \<noteq> [])))"

definition handler_store_paper :: "driver \<Rightarrow> graph \<Rightarrow> Paper \<Rightarrow> graph \<times> event list \<times> (error + bool)" where
  "handler_store_paper drv g paper =
     (case session_raises drv of
        Some e \<Rightarrow>
          (g, [LogError (''Error storing paper '' @ p_id paper @ '': '' @ str_error e)],
           Inr False)
      | None \<Rightarrow>
          (case handler_create_paper_tx drv g paper of
             (g', evs, ok) \<Rightarrow> (g', evs, Inr ok)))"

text \<open>
  \<open>get_paper_by_id\<close>. The statement \<open>async with self.driver.session() as session\<close>
  encloses the \<open>try\<close>, so what it raises is not caught. It first opens the session,
  which may raise. The driver is the synchronous one that \<open>_connect\<close> creates with
  \<open>GraphDatabase.driver\<close>, and its session is no asynchronous context manager: entering
  the statement raises a \<open>TypeError\<close>, so the \<open>try\<close> with the query is never
  reached. The dict that the method would return has the id, the title and the images
  of the paper.
\<close>

record paper_lookup =
  pl_id :: string
  pl_title :: "string option"
  pl_images :: "image_key list"

definition get_paper_by_id :: "driver \<Rightarrow> graph \<Rightarrow> string \<Rightarrow> event list \<times> (error + paper_lookup option)" where
  "get_paper_by_id drv g paper_id =
     (case session_raises drv of
        Some e \<Rightarrow> ([], Inl e)
      | None \<Rightarrow>
          ([], Inl (TypeError
             (CHR 0x27 # ''Session'' @ CHR 0x27 #
              '' object does not support the asynchronous context manager protocol''))))"

section \<open>The vocabulary of the claims about the graph\<close>

text \<open>The invariant of the data model: no two Paper nodes have the same id.\<close>

definition unique_ids :: "graph \<Rightarrow> bool" where
  "unique_ids g = distinct (map n_id (paper_nodes g))"

text \<open>A relationship exists at most once between two nodes, as \<open>MERGE\<close> leaves it.\<close>

definition unique_keyword_edges :: "graph \<Rightarrow> bool" where
  "unique_keyword_edges g = distinct (has_keyword g)"

text \<open>
  The paper with id \<open>pid\<close> has the keyword \<open>k\<close>; the number of Keyword nodes that the
  papers with the ids \<open>pid\<close> and \<open>rid\<close> share.
\<close>

definition paper_has_keyword :: "graph \<Rightarrow> string \<Rightarrow> string \<Rightarrow> bool" where
  "paper_has_keyword g pid k =
     list_ex (\<lambda>e. fst e < length (paper_nodes g) \<and> n_id (paper_nodes g ! fst e) = pid
                  \<and> snd e = k) (has_keyword g)"

definition shared_keyword_count :: "graph \<Rightarrow> string \<Rightarrow> string \<Rightarrow> nat" where
  "shared_keyword_count g pid rid =
     length (remdups (filter (\<lambda>k. paper_has_keyword g pid k \<and> paper_has_keyword g rid k)
                             (map snd (has_keyword g))))"

definition nodes_with_id :: "graph \<Rightarrow> string \<Rightarrow> paper_node list" where
  "nodes_with_id g pid = filter (\<lambda>n. n_id n = pid) (paper_nodes g)"

section \<open>Concrete engines and papers\<close>

definition fixed_qa :: "string \<Rightarrow> string \<Rightarrow> error + real option" where
  "fixed_qa q c = Inr (Some (1 / 2))"

definition echo_llm :: "string \<Rightarrow> error + string" where
  "echo_llm prompt = Inr (prompt @ '' 42 '')"

definition zero_scores :: "paper_context list \<Rightarrow> string \<Rightarrow> error + real list" where
  "zero_scores cs q = Inr (map (\<lambda>c. 0) cs)"

definition echo_engine :: "paper_context engine" where
  "echo_engine = \<lparr>qa_pipeline = fixed_qa, llm = echo_llm, dot_scores = zero_scores\<rparr>"

definition broken_llm :: "string \<Rightarrow> error + string" where
  "broken_llm prompt = Inl (LibraryError ''CUDA out of memory'')"

definition broken_engine :: "paper_context engine" where
  "broken_engine = \<lparr>qa_pipeline = fixed_qa, llm = broken_llm, dot_scores = zero_scores\<rparr>"

definition full_text_paper :: Paper where
  "full_text_paper =
     \<lparr>p_id = ''2401.00001'', p_title = ''T'', p_authors = [''A''], p_abstract = ''ABSTRACT'',
      p_year = 2024, p_url = ''u'', has_full_text = True, has_images = False,
      full_text = Some ''FULL TEXT'', images = None\<rparr>"

definition abstract_only_paper :: Paper where
  "abstract_only_paper = full_text_paper\<lparr>has_full_text := False, full_text := None\<rparr>"

definition full_text_only_paper :: Paper where
  "full_text_only_paper = full_text_paper\<lparr>p_abstract := []\<rparr>"

text \<open>
  Two ways in which a database may emit the groups of an aggregation: in the order of
  their first rows, and by a hash of the id in the grouping key.
\<close>

definition first_row_order :: "row_key \<Rightarrow> nat" where
  "first_row_order key = 0"

definition id_hash :: "row_key \<Rightarrow> nat" where
  "id_hash key = sum_list (map of_char (fst key))"

definition ok_driver :: driver where
  "ok_driver = \<lparr>session_raises = None, run_raises = None, now = 7,
                 group_order = first_row_order\<rparr>"

definition hashing_driver :: driver where
  "hashing_driver = \<lparr>session_raises = None, run_raises = None, now = 7,
                      group_order = id_hash\<rparr>"

definition closed_driver :: driver where
  "closed_driver = \<lparr>session_raises = Some (LibraryError ''Driver closed''),
                     run_raises = None, now = 7, group_order = first_row_order\<rparr>"

definition paper_a :: db_paper where
  "paper_a = \<lparr>dp_id = ''a'', dp_title = Some ''quantum one'', dp_authors = [''X'', ''Y''],
              dp_summary = Some ''s'', dp_year = Some 2021, dp_url = Some ''u'',
              dp_keywords = Some [''k1'', ''k2'']\<rparr>"

definition paper_b :: db_paper where
  "paper_b = \<lparr>dp_id = ''b'', dp_title = Some ''other'', dp_authors = [''X''],
              dp_summary = Some ''about quantum'', dp_year = Some 2023, dp_url = Some ''u'',
              dp_keywords = Some [''k2'']\<rparr>"

definition paper_c :: db_paper where
  "paper_c = \<lparr>dp_id = ''c'', dp_title = Some ''third'', dp_authors = [''Z''],
              dp_summary = Some ''zzz'', dp_year = Some 2019, dp_url = Some ''u'',
              dp_keywords = Some [''k1'', ''k2'', ''k3'']\<rparr>"

text \<open>The graph after storing \<open>paper_a\<close>, \<open>paper_b\<close> and \<open>paper_c\<close> in an empty database.\<close>

definition three_papers :: graph where
  "three_papers =
     \<lparr>paper_nodes =
        [\<lparr>n_id = ''a'', n_title = Some ''quantum one'', n_summary = Some ''s'',
          n_abstract = None, n_year = Some 2021, n_url = Some ''u'',
          n_full_text = None, n_updated_at = Some 7\<rparr>,
         \<lparr>n_id = ''b'', n_title = Some ''other'', n_summary = Some ''about quantum'',
          n_abstract = None, n_year = Some 2023, n_url = Some ''u'',
          n_full_text = None, n_updated_at = Some 7\<rparr>,
         \<lparr>n_id = ''c'', n_title = Some ''third'', n_summary = Some ''zzz'',
          n_abstract = None, n_year = Some 2019, n_url = Some ''u'',
          n_full_text = None, n_updated_at = Some 7\<rparr>],
      author_nodes = [''X'', ''Y'', ''Z''],
      keyword_nodes = [''k1'', ''k2'', ''k3''], image_nodes = [],
      authored = [(''X'', 0), (''Y'', 0), (''X'', 1), (''Z'', 2)],
      has_keyword = [(0, ''k1''), (0, ''k2''), (1, ''k2''), (2, ''k1''), (2, ''k2''), (2, ''k3'')],
      has_image = []\<rparr>"

section \<open>Properties of the string helpers\<close>

lemma starts_with_iff: "starts_with needle hay \<longleftrightarrow> (\<exists>s. hay = needle @ s)"
  by (induction needle hay rule: starts_with.induct) auto

lemma contains_iff: "contains needle hay \<longleftrightarrow> (\<exists>p s. hay = p @ needle @ s)"
proof (induction hay)
  case Nil
  then show ?case by auto
next
  case (Cons y ys)
  show ?case
  proof
    assume "contains needle (y # ys)"
    then consider "starts_with needle (y # ys)" | "contains needle ys" by auto
    then show "\<exists>p s. y # ys = p @ needle @ s"
    proof cases
      case 1
      then obtain s where "y # ys = needle @ s" by (auto simp: starts_with_iff)
      then have "y # ys = [] @ needle @ s" by simp
      then show ?thesis by blast
    next
      case 2
      then obtain p s where "ys = p @ needle @ s" using Cons.IH by auto
      then have "y # ys = (y # p) @ needle @ s" by simp
      then show ?thesis by blast
    qed
  next
    assume "\<exists>p s. y # ys = p @ needle @ s"
    then obtain p s where ps: "y # ys = p @ needle @ s" by blast
    show "contains needle (y # ys)"
    proof (cases p)
      case Nil
      then have "starts_with needle (y # ys)" using ps by (auto simp: starts_with_iff)
      then show ?thesis by simp
    next
      case (Cons a p')
      then have "ys = p' @ needle @ s" using ps by simp
      then have "contains needle ys" using Cons.IH by blast
      then show ?thesis by simp
    qed
  qed
qed

section \<open>Question answering\<close>

lemma generate_answer_total: "\<exists>a. snd (generate_answer eng question ctx) = Inr a"
  by (auto simp: generate_answer_def split: prod.splits sum.splits)

lemma engine_failure_answer:
  assumes "qa_pipeline eng question (take 500 ctx) = Inl e
           \<or> llm eng (answer_prompt question) = Inl e"
  shows "\<exists>evs. generate_answer eng question ctx
           = (evs, Inr \<lparr>a_text = ''Failed to generate answer'', a_confidence = 0\<rparr>)"
  using assms
  by (auto simp: generate_answer_def generate_answer_try_def failed_answer_def Let_def
        split: prod.splits sum.splits)

lemma abstract_fallback:
  assumes "full_text paper = None" "p_abstract paper \<noteq> []" "question \<noteq> []"
  shows "\<exists>evs r. answer_question eng [paper] question = (evs, Inr r)
           \<and> r_context_used r = take 1000 (p_abstract paper)
           \<and> QACall question (take 500 (p_abstract paper)) \<in> set evs"
  using assms
  by (auto simp: answer_question_def answer_question_try_def process_paper_def
        generate_answer_def generate_answer_try_def format_response_def Let_def
        split: prod.splits sum.splits)

text \<open>
  Claim C1, as amended. The only prompt that \<open>_generate_answer\<close> gives to the
  language model is ``Question: <question>, newline, Answer:'', built from the question
  alone whatever the context is; the context reaches only the extractive QA pipeline,
  cut to its first 500 characters, and the language model is not called at all when
  that pipeline raises. When neither raises, the answer text is what the language model
  generated after the length of the prompt, stripped, and the confidence is the score of
  the QA pipeline (0 when its result has none); when one of them raises, the answer is
  the fixed text with confidence 0.
\<close>

theorem prompt_is_question_only:
  "engine_calls (fst (generate_answer eng question ctx))
     = (case qa_pipeline eng question (take 500 ctx) of
          Inl e \<Rightarrow> [QACall question (take 500 ctx)]
        | Inr score \<Rightarrow> [QACall question (take 500 ctx),
                        LLMCall (''Question: '' @ question @ ''\<newline>Answer:'')])
   \<and> snd (generate_answer eng question ctx)
     = (case qa_pipeline eng question (take 500 ctx) of
          Inl e \<Rightarrow> Inr \<lparr>a_text = ''Failed to generate answer'', a_confidence = 0\<rparr>
        | Inr score \<Rightarrow>
            (case llm eng (''Question: '' @ question @ ''\<newline>Answer:'') of
               Inl e \<Rightarrow> Inr \<lparr>a_text = ''Failed to generate answer'', a_confidence = 0\<rparr>
             | Inr generated \<Rightarrow>
                 Inr \<lparr>a_text = strip (drop (length (''Question: '' @ question
                                                      @ ''\<newline>Answer:'')) generated),
                      a_confidence = (case score of Some sc \<Rightarrow> sc | None \<Rightarrow> 0)\<rparr>))"
proof
  show "engine_calls (fst (generate_answer eng question ctx))
     = (case qa_pipeline eng question (take 500 ctx) of
          Inl e \<Rightarrow> [QACall question (take 500 ctx)]
        | Inr score \<Rightarrow> [QACall question (take 500 ctx),
                        LLMCall (''Question: '' @ question @ ''\<newline>Answer:'')])"
    by (auto simp: generate_answer_def generate_answer_try_def engine_calls_def
        answer_prompt_def Let_def split: prod.splits sum.splits)
next
  show "snd (generate_answer eng question ctx)
     = (case qa_pipeline eng question (take 500 ctx) of
          Inl e \<Rightarrow> Inr \<lparr>a_text = ''Failed to generate answer'', a_confidence = 0\<rparr>
        | Inr score \<Rightarrow>
            (case llm eng (''Question: '' @ question @ ''\<newline>Answer:'') of
               Inl e \<Rightarrow> Inr \<lparr>a_text = ''Failed to generate answer'', a_confidence = 0\<rparr>
             | Inr generated \<Rightarrow>
                 Inr \<lparr>a_text = strip (drop (length (''Question: '' @ question
                                                      @ ''\<newline>Answer:'')) generated),
                      a_confidence = (case score of Some sc \<Rightarrow> sc | None \<Rightarrow> 0)\<rparr>))"
    by (simp add: generate_answer_def generate_answer_try_def failed_answer_def
        answer_prompt_def Let_def split: sum.splits)
qed

text \<open>
  Claim C1 as stated fails: for the question ``Why?'' and the context ``CONTEXT'' the
  prompt sent to the language model does not contain the context.
\<close>

theorem prompt_lacks_context_counterexample:
  "fst (generate_answer echo_engine ''Why?'' ''CONTEXT'')
     = [QACall ''Why?'' ''CONTEXT'', LLMCall ''Question: Why?\<newline>Answer:'']
   \<and> \<not> contains ''CONTEXT'' ''Question: Why?\<newline>Answer:''"
  by (simp add: generate_answer_def generate_answer_try_def echo_engine_def fixed_qa_def
        echo_llm_def answer_prompt_def)

text \<open>
  Claim C2 at a concrete paper. With a full text and an abstract both present, the
  shadowed first definition of \<open>_process_paper\<close> would choose the full text, but the
  definition in effect builds the context from the abstract, and that is what reaches
  the engine; with a full text and an empty abstract the request raises ``No relevant
  content found in paper''.
\<close>

theorem full_text_ignored:
  "shadowed_process_paper_content full_text_paper = Some ''FULL TEXT''
   \<and> map_option c_text (process_paper full_text_paper ''Why?'') = Some ''ABSTRACT''
   \<and> engine_calls (fst (answer_question echo_engine [full_text_paper] ''Why?''))
       = [QACall ''Why?'' ''ABSTRACT'', LLMCall ''Question: Why?\<newline>Answer:'']
   \<and> snd (answer_question echo_engine [full_text_only_paper] ''Why?'')
       = Inl (ValueError ''No relevant content found in paper'')"
  by (simp add: shadowed_process_paper_content_def process_paper_def full_text_paper_def
        full_text_only_paper_def answer_question_def answer_question_try_def
        generate_answer_def generate_answer_try_def echo_engine_def fixed_qa_def echo_llm_def
        answer_prompt_def engine_calls_def format_response_def)

text \<open>
  Claim C6. A call to \<open>answer_question\<close> with an empty paper list or an empty question
  raises the validation error with no event at all before it, so no engine call is made;
  the /answer endpoint rejects the same request with status 422, makes no engine call,
  and returns the error to the caller instead of an answer.
\<close>

theorem validation_precedes_generation:
  assumes "papers = [] \<or> question = []"
  shows "answer_question eng papers question
           = ([], Inl (ValueError ''Papers list and question cannot be empty''))
         \<and> engine_calls (fst (answer_endpoint eng \<lparr>rq_paper = papers, rq_question = question\<rparr>)) = []
         \<and> snd (answer_endpoint eng \<lparr>rq_paper = papers, rq_question = question\<rparr>)
             = Inl (HTTPException 422 ''Both paper_ids and question are required'')"
  using assms
  by (auto simp: answer_question_def answer_endpoint_def answer_endpoint_try_def engine_calls_def)

theorem validation_precedes_generation_witness:
  "answer_question echo_engine [full_text_paper] []
           = ([], Inl (ValueError ''Papers list and question cannot be empty''))
         \<and> engine_calls (fst (answer_endpoint echo_engine \<lparr>rq_paper = [full_text_paper], rq_question = []\<rparr>)) = []
         \<and> snd (answer_endpoint echo_engine \<lparr>rq_paper = [full_text_paper], rq_question = []\<rparr>)
             = Inl (HTTPException 422 ''Both paper_ids and question are required'')"
  using validation_precedes_generation [of "[full_text_paper]" "[]" echo_engine] by simp

text \<open>
  Claim C7. Whenever the \<open>try\<close> block of \<open>_generate_answer\<close> raises, with any
  exception, \<open>_generate_answer\<close> returns the answer ``Failed to generate answer'' with
  confidence 0 and raises nothing; a single-paper request whose generation fails so is
  still answered, with that text and confidence.
\<close>

theorem generation_failure_degrades:
  assumes "snd (generate_answer_try eng question ctx) = Inl e"
  shows "snd (generate_answer eng question ctx)
           = Inr \<lparr>a_text = ''Failed to generate answer'', a_confidence = 0\<rparr>
         \<and> (\<forall>paper. question \<noteq> [] \<and> p_abstract paper = ctx \<and> ctx \<noteq> [] \<longrightarrow>
               (\<exists>r. snd (answer_question eng [paper] question) = Inr r
                    \<and> r_text r = ''Failed to generate answer'' \<and> r_confidence r = 0))"
  using assms
  by (auto simp: generate_answer_def failed_answer_def answer_question_def
        answer_question_try_def process_paper_def format_response_def Let_def
        split: prod.splits sum.splits)

theorem generation_failure_degrades_witness:
  "snd (generate_answer_try broken_engine ''Why?'' ''ABSTRACT'') = Inl (LibraryError ''CUDA out of memory'')
   \<and> snd (generate_answer broken_engine ''Why?'' ''ABSTRACT'')
           = Inr \<lparr>a_text = ''Failed to generate answer'', a_confidence = 0\<rparr>
   \<and> (\<exists>r. snd (answer_question broken_engine [abstract_only_paper] ''Why?'') = Inr r
                    \<and> r_text r = ''Failed to generate answer'' \<and> r_confidence r = 0)"
proof -
  have h: "snd (generate_answer_try broken_engine ''Why?'' ''ABSTRACT'') = Inl (LibraryError ''CUDA out of memory'')"
    by (simp add: generate_answer_try_def broken_engine_def fixed_qa_def broken_llm_def answer_prompt_def)
  have p: "''Why?'' \<noteq> [] \<and> p_abstract abstract_only_paper = ''ABSTRACT'' \<and> ''ABSTRACT'' \<noteq> []"
    by (simp add: abstract_only_paper_def full_text_paper_def)
  from generation_failure_degrades [OF h] p h show ?thesis by blast
qed

text \<open>
  Claim C9. \<open>create_improvement_plan\<close> always returns a result, whose findings are the
  same two strings and whose metrics are the same two entries (0.15 and 0.20) for every
  list of papers and every engine; \<open>analyze_improvement_plan\<close> does not depend on the
  generated text.
\<close>

theorem stub_findings_and_metrics:
  "(\<exists>evs r. create_improvement_plan eng papers = (evs, Inr r)
       \<and> findings r = [''Finding 1: Enhanced methodology improves accuracy by 15%.'',
                       ''Finding 2: Incorporating X technique reduces computational overhead.'']
       \<and> metrics r = [(''accuracy_improvement'', 15 / 100),
                      (''computational_efficiency_gain'', 20 / 100)])
   \<and> analyze_improvement_plan plan = analyze_improvement_plan plan'"
  by (auto simp: create_improvement_plan_def llm_generate_async_def llm_generate_def
        analyze_improvement_plan_def Let_def split: prod.splits sum.splits option.splits)

text \<open>
  Claim C10. In every response that \<open>answer_question\<close> returns, each source's excerpt
  is the first 200 characters of that source's context text followed by ``...'', and
  \<open>context_used\<close> is the first 1000 characters of the combined context: for a single
  paper the context of that paper, otherwise the three best ranked contexts joined by
  \<open>_combine_contexts\<close>.
\<close>

theorem response_excerpts:
  assumes "snd (answer_question eng papers question) = Inr r"
  shows "(length papers = 1 \<longrightarrow>
            (\<exists>c. process_paper (hd papers) question = Some c
                \<and> map s_excerpt (r_sources r) = [take 200 (c_text c) @ ''...'']
                \<and> r_context_used r = take 1000 (c_text c)))
         \<and> (length papers \<noteq> 1 \<longrightarrow>
            (\<exists>ranked. rank_contexts eng (gather_contexts papers question) question = Inr ranked
                \<and> map s_excerpt (r_sources r)
                    = map (\<lambda>c. take 200 (c_text c) @ ''...'') (take 3 ranked)
                \<and> r_context_used r = take 1000 (combine_contexts (take 3 ranked))))"
  using assms
  by (auto simp: answer_question_def answer_question_try_def format_response_def Let_def
        split: prod.splits sum.splits option.splits if_splits)

theorem response_excerpts_witness:
  "snd (answer_question echo_engine [full_text_paper] ''Why?'')
     = Inr \<lparr>r_text = ''42'', r_confidence = 1 / 2,
            r_sources = [\<lparr>s_paper_id = ''2401.00001'', s_title = ''T'', s_year = 2024,
                          s_excerpt = ''ABSTRACT...''\<rparr>],
            r_context_used = ''ABSTRACT''\<rparr>
   \<and> length [full_text_paper] = 1
   \<and> snd (answer_question echo_engine [full_text_paper, abstract_only_paper] ''Why?'')
     = Inr \<lparr>r_text = ''42'', r_confidence = 1 / 2,
            r_sources = [\<lparr>s_paper_id = ''2401.00001'', s_title = ''T'', s_year = 2024,
                          s_excerpt = ''ABSTRACT...''\<rparr>,
                         \<lparr>s_paper_id = ''2401.00001'', s_title = ''T'', s_year = 2024,
                          s_excerpt = ''ABSTRACT...''\<rparr>],
            r_context_used = ''From T (2024):\<newline>ABSTRACT\<newline>\<newline>From T (2024):\<newline>ABSTRACT''\<rparr>
   \<and> length [full_text_paper, abstract_only_paper] \<noteq> 1
   \<and> (\<exists>ranked. rank_contexts echo_engine
                   (gather_contexts [full_text_paper, abstract_only_paper] ''Why?'') ''Why?''
                 = Inr ranked
          \<and> [''ABSTRACT...'', ''ABSTRACT...'']
              = map (\<lambda>c. take 200 (c_text c) @ ''...'') (take 3 ranked)
          \<and> ''From T (2024):\<newline>ABSTRACT\<newline>\<newline>From T (2024):\<newline>ABSTRACT''
              = take 1000 (combine_contexts (take 3 ranked)))"
proof -
  have h: "snd (answer_question echo_engine [full_text_paper] ''Why?'')
     = Inr \<lparr>r_text = ''42'', r_confidence = 1 / 2,
            r_sources = [\<lparr>s_paper_id = ''2401.00001'', s_title = ''T'', s_year = 2024,
                          s_excerpt = ''ABSTRACT...''\<rparr>],
            r_context_used = ''ABSTRACT''\<rparr>"
    by (simp add: process_paper_def full_text_paper_def
        answer_question_def answer_question_try_def strip_def py_isspace_def
        generate_answer_def generate_answer_try_def echo_engine_def fixed_qa_def echo_llm_def
        answer_prompt_def format_response_def)
  have h2: "snd (answer_question echo_engine [full_text_paper, abstract_only_paper] ''Why?'')
     = Inr \<lparr>r_text = ''42'', r_confidence = 1 / 2,
            r_sources = [\<lparr>s_paper_id = ''2401.00001'', s_title = ''T'', s_year = 2024,
                          s_excerpt = ''ABSTRACT...''\<rparr>,
                         \<lparr>s_paper_id = ''2401.00001'', s_title = ''T'', s_year = 2024,
                          s_excerpt = ''ABSTRACT...''\<rparr>],
            r_context_used = ''From T (2024):\<newline>ABSTRACT\<newline>\<newline>From T (2024):\<newline>ABSTRACT''\<rparr>"
    by (simp add: process_paper_def full_text_paper_def abstract_only_paper_def
        answer_question_def answer_question_try_def strip_def py_isspace_def
        rank_contexts_def argsort_desc_def zero_scores_def combine_contexts_def
        str_int_def digit_char_def Let_def
        generate_answer_def generate_answer_try_def echo_engine_def fixed_qa_def echo_llm_def
        answer_prompt_def format_response_def)
  from response_excerpts [OF h] response_excerpts [OF h2] h h2 show ?thesis by simp
qed

section \<open>The upsert\<close>

lemma paper_nodes_fold_merge_author [simp]:
  "paper_nodes (fold merge_author rows g) = paper_nodes g"
  by (induction rows arbitrary: g) (simp_all add: merge_author_def)

lemma paper_nodes_fold_merge_keyword [simp]:
  "paper_nodes (fold merge_keyword rows g) = paper_nodes g"
  by (induction rows arbitrary: g) (simp_all add: merge_keyword_def)

lemma paper_nodes_fold_merge_image [simp]:
  "paper_nodes (fold merge_image rows g) = paper_nodes g"
  by (induction rows arbitrary: g) (simp_all add: merge_image_def)

lemma length_fold_set_node [simp]:
  "length (paper_nodes (fold (set_node f) rows g)) = length (paper_nodes g)"
  by (induction rows arbitrary: g) (simp_all add: set_node_def)

lemma nth_fold_set_node:
  "i < length (paper_nodes g) \<Longrightarrow>
   paper_nodes (fold (set_node f) rows g) ! i = (f ^^ count_list rows i) (paper_nodes g ! i)"
proof (induction rows arbitrary: g)
  case Nil
  then show ?case by simp
next
  case (Cons r rows)
  have len: "i < length (paper_nodes (set_node f r g))"
    using Cons.prems by (simp add: set_node_def)
  show ?case
  proof (cases "r = i")
    case True
    then have "paper_nodes (set_node f r g) ! i = f (paper_nodes g ! i)"
      using Cons.prems by (simp add: set_node_def)
    then show ?thesis using Cons.IH [OF len] True by (simp add: funpow_swap1)
  next
    case False
    then have "paper_nodes (set_node f r g) ! i = paper_nodes g ! i"
      by (simp add: set_node_def)
    then show ?thesis using Cons.IH [OF len] False by simp
  qed
qed

lemma funpow_keeps_id:
  fixes f :: "paper_node \<Rightarrow> paper_node"
  shows "(\<And>n. n_id (f n) = n_id n) \<Longrightarrow> n_id ((f ^^ k) n) = n_id n"
  by (induction k) simp_all

lemma ids_fold_set_node:
  fixes f :: "paper_node \<Rightarrow> paper_node"
  assumes "\<And>n. n_id (f n) = n_id n"
  shows "map n_id (paper_nodes (fold (set_node f) rows g)) = map n_id (paper_nodes g)"
  by (rule nth_equalityI) (simp_all add: nth_fold_set_node funpow_keeps_id assms)

lemma filter_eq_upt: "i < n \<Longrightarrow> filter (\<lambda>p. p = i) [0 ..< n] = [i]"
  by (induction n) auto

lemma match_paper_unique:
  assumes "unique_ids g" "i < length (paper_nodes g)" "n_id (paper_nodes g ! i) = pid"
  shows "match_paper g pid = [i]"
proof -
  have d: "distinct (map n_id (paper_nodes g))" using assms(1) by (simp add: unique_ids_def)
  have "\<And>p. p < length (paper_nodes g) \<Longrightarrow> (n_id (paper_nodes g ! p) = pid) = (p = i)"
    using d assms(2,3) by (metis length_map nth_eq_iff_index_eq nth_map)
  then have "match_paper g pid = filter (\<lambda>p. p = i) [0 ..< length (paper_nodes g)]"
    unfolding match_paper_def by (intro filter_cong) auto
  also have "\<dots> = [i]"
    using assms(2) by (simp add: filter_eq_upt)
  finally show ?thesis .
qed


lemma nodes_with_id_match:
  "nodes_with_id g pid = map (\<lambda>p. paper_nodes g ! p) (match_paper g pid)"
proof -
  have "filter (\<lambda>n. n_id n = pid) (map (\<lambda>p. paper_nodes g ! p) [0 ..< length (paper_nodes g)])
        = map (\<lambda>p. paper_nodes g ! p) (match_paper g pid)"
    by (simp add: filter_map match_paper_def comp_def)
  then show ?thesis by (simp add: nodes_with_id_def map_nth)
qed

lemma match_paper_Nil_iff: "match_paper g pid = [] \<longleftrightarrow> pid \<notin> set (map n_id (paper_nodes g))"
proof -
  have "match_paper g pid = [] \<longleftrightarrow> (\<forall>p < length (paper_nodes g). n_id (paper_nodes g ! p) \<noteq> pid)"
    by (auto simp: match_paper_def filter_empty_conv)
  also have "\<dots> \<longleftrightarrow> pid \<notin> set (map n_id (paper_nodes g))"
    by (force simp: in_set_conv_nth)
  finally show ?thesis .
qed

lemma upsert_core:
  fixes f :: "paper_node \<Rightarrow> paper_node"
  assumes u: "unique_ids g"
    and f: "\<And>n. n_id (f n) = n_id n"
    and nodes: "paper_nodes g' = paper_nodes (fold (set_node f) (snd (merge_paper g pid)) (fst (merge_paper g pid)))"
  shows "unique_ids g' \<and> (\<exists>m. nodes_with_id g' pid = [f m])"
proof (cases "match_paper g pid = []")
  case True
  let ?i = "length (paper_nodes g)"
  let ?g1 = "fst (merge_paper g pid)"
  have rows: "snd (merge_paper g pid) = [?i]" using True by (simp add: merge_paper_def)
  have len1: "length (paper_nodes ?g1) = Suc ?i" using True by (simp add: merge_paper_def)
  have ids1: "map n_id (paper_nodes ?g1) = map n_id (paper_nodes g) @ [pid]"
    using True by (simp add: merge_paper_def)
  have fresh: "pid \<notin> set (map n_id (paper_nodes g))" using True by (simp add: match_paper_Nil_iff)
  have ids': "map n_id (paper_nodes g') = map n_id (paper_nodes g) @ [pid]"
    using ids1 by (simp add: nodes ids_fold_set_node [OF f])
  have u': "unique_ids g'" using u fresh ids' by (simp add: unique_ids_def)
  have len': "length (paper_nodes g') = Suc ?i" using len1 by (simp add: nodes)
  have idi: "n_id (paper_nodes g' ! ?i) = pid"
    using ids' len' by (metis length_map lessI nth_append_length nth_map)
  have m: "match_paper g' pid = [?i]"
    using match_paper_unique [OF u' _ idi] len' by simp
  have "?i < length (paper_nodes ?g1)" using len1 by simp
  from nth_fold_set_node [OF this, of f "[?i]"]
  have "paper_nodes g' ! ?i = f (paper_nodes ?g1 ! ?i)"
    by (simp add: nodes rows)
  then show ?thesis using u' m by (auto simp: nodes_with_id_match)
next
  case False
  then obtain i where i: "i < length (paper_nodes g)" "n_id (paper_nodes g ! i) = pid"
    by (auto simp: match_paper_Nil_iff in_set_conv_nth)
  have rows: "snd (merge_paper g pid) = [i]" and g1: "fst (merge_paper g pid) = g"
    using False match_paper_unique [OF u i] by (simp_all add: merge_paper_def)
  have ids': "map n_id (paper_nodes g') = map n_id (paper_nodes g)"
    by (simp add: nodes g1 ids_fold_set_node [OF f])
  have u': "unique_ids g'" using u ids' by (simp add: unique_ids_def)
  have len': "length (paper_nodes g') = length (paper_nodes g)" by (simp add: nodes g1)
  have idi: "n_id (paper_nodes g' ! i) = pid"
    using ids' i len' by (metis length_map nth_map)
  have m: "match_paper g' pid = [i]"
    using match_paper_unique [OF u' _ idi] len' i by simp
  from nth_fold_set_node [OF i(1), of f "[i]"]
  have "paper_nodes g' ! i = f (paper_nodes g ! i)"
    by (simp add: nodes rows g1)
  then show ?thesis using u' m by (auto simp: nodes_with_id_match)
qed

lemma create_paper_tx_upsert:
  assumes "unique_ids g"
  shows "unique_ids (fst (create_paper_tx t g paper))
         \<and> (\<exists>n. nodes_with_id (fst (create_paper_tx t g paper)) (dp_id paper) = [n]
                \<and> n_title n = dp_title paper)"
proof -
  let ?f = "\<lambda>n::paper_node. n\<lparr>n_title := dp_title paper, n_summary := dp_summary paper,
                  n_year := dp_year paper, n_url := dp_url paper, n_updated_at := Some t\<rparr>"
  have "paper_nodes (fst (create_paper_tx t g paper))
        = paper_nodes (fold (set_node ?f) (snd (merge_paper g (dp_id paper)))
                         (fst (merge_paper g (dp_id paper))))"
    by (simp add: create_paper_tx_def Let_def split: prod.splits)
  from upsert_core [OF assms _ this] show ?thesis by auto
qed

lemma handler_create_paper_tx_upsert:
  assumes "unique_ids g" "run_raises drv = None"
  shows "unique_ids (fst (handler_create_paper_tx drv g paper))
         \<and> (\<exists>n. nodes_with_id (fst (handler_create_paper_tx drv g paper)) (p_id paper) = [n]
                \<and> n_title n = Some (p_title paper))"
proof -
  let ?f = "\<lambda>n::paper_node. n\<lparr>n_title := Some (p_title paper),
                  n_abstract := Some (p_abstract paper), n_year := Some (p_year paper),
                  n_url := Some (p_url paper), n_full_text := full_text paper,
                  n_updated_at := Some (now drv)\<rparr>"
  have "paper_nodes (fst (handler_create_paper_tx drv g paper))
        = paper_nodes (fold (set_node ?f) (snd (merge_paper g (p_id paper)))
                         (fst (merge_paper g (p_id paper))))"
    using assms(2) by (simp add: handler_create_paper_tx_def Let_def split: prod.splits)
  from upsert_core [OF assms(1) _ this] show ?thesis by auto
qed

lemma three_papers_stored:
  "fst (store_paper ok_driver (fst (store_paper ok_driver (fst (store_paper ok_driver empty_graph paper_a)) paper_b)) paper_c) = three_papers"
  by (simp add: store_paper_def store_paper_try_def ok_driver_def create_paper_tx_def
      merge_paper_def match_paper_def set_node_def unwind_def merge_author_def
      merge_keyword_def merge_item_def empty_graph_def paper_a_def paper_b_def paper_c_def
      three_papers_def Let_def)

lemma store_paper_ok:
  assumes "session_raises drv = None" "run_raises drv = None"
  shows "fst (store_paper drv g paper) = fst (create_paper_tx (now drv) g paper)"
  using assms by (simp add: store_paper_def store_paper_try_def split: prod.splits)

lemma store_paper_unique_ids:
  assumes "unique_ids g"
  shows "unique_ids (fst (store_paper drv g paper))"
  using create_paper_tx_upsert [OF assms, of "now drv" paper]
  by (auto simp: store_paper_def store_paper_try_def assms split: prod.splits option.splits)

lemma handler_store_paper_ok:
  assumes "session_raises drv = None"
  shows "fst (handler_store_paper drv g paper) = fst (handler_create_paper_tx drv g paper)"
  using assms by (simp add: handler_store_paper_def split: prod.splits)

lemma handler_store_paper_unique_ids:
  assumes "unique_ids g"
  shows "unique_ids (fst (handler_store_paper drv g paper))"
proof (cases "session_raises drv = None \<and> run_raises drv = None")
  case True
  then show ?thesis
    using handler_create_paper_tx_upsert [OF assms, of drv paper]
    by (simp add: handler_store_paper_ok)
next
  case False
  then show ?thesis using assms
    by (auto simp: handler_store_paper_def handler_create_paper_tx_def split: option.splits)
qed

text \<open>
  Claim C3. In a graph where no two Paper nodes share an id, storing a paper and then
  storing a paper with the same id again (the second store meeting no storage error)
  leaves exactly one Paper node with that id, its title is the title of the second
  store, and still no two Paper nodes share an id. This holds for \<open>DBAgent.store_paper\<close>
  and for \<open>Neo4jHandler.store_paper\<close>.
\<close>

theorem upsert_same_id_twice:
  assumes "unique_ids g"
    and "session_raises drv2 = None" and "run_raises drv2 = None"
    and "dp_id paper2 = dp_id paper1" and "p_id hpaper2 = p_id hpaper1"
  shows "(unique_ids (fst (store_paper drv2 (fst (store_paper drv1 g paper1)) paper2))
          \<and> (\<exists>n. nodes_with_id (fst (store_paper drv2 (fst (store_paper drv1 g paper1)) paper2))
                    (dp_id paper1) = [n]
                  \<and> n_title n = dp_title paper2))
       \<and> (unique_ids (fst (handler_store_paper drv2 (fst (handler_store_paper drv1 g hpaper1)) hpaper2))
          \<and> (\<exists>n. nodes_with_id
                    (fst (handler_store_paper drv2 (fst (handler_store_paper drv1 g hpaper1)) hpaper2))
                    (p_id hpaper1) = [n]
                  \<and> n_title n = Some (p_title hpaper2)))"
proof
  have u1: "unique_ids (fst (store_paper drv1 g paper1))"
    by (rule store_paper_unique_ids [OF assms(1)])
  from create_paper_tx_upsert [OF u1, of "now drv2" paper2]
  show "unique_ids (fst (store_paper drv2 (fst (store_paper drv1 g paper1)) paper2))
          \<and> (\<exists>n. nodes_with_id (fst (store_paper drv2 (fst (store_paper drv1 g paper1)) paper2))
                    (dp_id paper1) = [n]
                  \<and> n_title n = dp_title paper2)"
    by (simp add: store_paper_ok [OF assms(2,3)] assms(4))
next
  have u1: "unique_ids (fst (handler_store_paper drv1 g hpaper1))"
    by (rule handler_store_paper_unique_ids [OF assms(1)])
  from handler_create_paper_tx_upsert [OF u1 assms(3), of hpaper2]
  show "unique_ids (fst (handler_store_paper drv2 (fst (handler_store_paper drv1 g hpaper1)) hpaper2))
          \<and> (\<exists>n. nodes_with_id
                    (fst (handler_store_paper drv2 (fst (handler_store_paper drv1 g hpaper1)) hpaper2))
                    (p_id hpaper1) = [n]
                  \<and> n_title n = Some (p_title hpaper2))"
    by (simp add: handler_store_paper_ok [OF assms(2)] assms(5))
qed

theorem upsert_same_id_twice_witness:
  "unique_ids three_papers
   \<and> dp_id (paper_a\<lparr>dp_title := Some ''renamed''\<rparr>) = dp_id paper_a
   \<and> nodes_with_id (fst (store_paper ok_driver (fst (store_paper ok_driver three_papers paper_a))
                        (paper_a\<lparr>dp_title := Some ''renamed''\<rparr>))) ''a''
       = [\<lparr>n_id = ''a'', n_title = Some ''renamed'', n_summary = Some ''s'',
           n_abstract = None, n_year = Some 2021, n_url = Some ''u'',
           n_full_text = None, n_updated_at = Some 7\<rparr>]
   \<and> (\<exists>n. nodes_with_id
             (fst (handler_store_paper ok_driver
                    (fst (handler_store_paper ok_driver three_papers (full_text_paper\<lparr>p_id := ''a''\<rparr>)))
                    (full_text_paper\<lparr>p_id := ''a'', p_title := ''renamed''\<rparr>))) ''a'' = [n]
           \<and> n_title n = Some ''renamed'')"
proof -
  have u: "unique_ids three_papers" by (simp add: unique_ids_def three_papers_def)
  have s: "session_raises ok_driver = None" and r: "run_raises ok_driver = None"
    by (simp_all add: ok_driver_def)
  have i: "dp_id (paper_a\<lparr>dp_title := Some ''renamed''\<rparr>) = dp_id paper_a" by simp
  have j: "p_id (full_text_paper\<lparr>p_id := ''a'', p_title := ''renamed''\<rparr>)
           = p_id (full_text_paper\<lparr>p_id := ''a''\<rparr>)" by simp
  have e: "nodes_with_id (fst (store_paper ok_driver (fst (store_paper ok_driver three_papers paper_a))
                        (paper_a\<lparr>dp_title := Some ''renamed''\<rparr>))) ''a''
       = [\<lparr>n_id = ''a'', n_title = Some ''renamed'', n_summary = Some ''s'',
           n_abstract = None, n_year = Some 2021, n_url = Some ''u'',
           n_full_text = None, n_updated_at = Some 7\<rparr>]"
    by (simp add: store_paper_def store_paper_try_def ok_driver_def create_paper_tx_def
      merge_paper_def match_paper_def set_node_def unwind_def merge_author_def
      merge_keyword_def merge_item_def paper_a_def nodes_with_id_def
      three_papers_def Let_def)
  from upsert_same_id_twice [OF u s r i j, of ok_driver] u i e show ?thesis
    by (simp add: paper_a_def)
qed

section \<open>Storage errors\<close>

text \<open>
  Claim C8 at a concrete driver. When opening a session raises, \<open>store_paper\<close>,
  \<open>query_papers\<close> and \<open>get_related_papers\<close> return \<open>False\<close> or the empty list, but
  \<open>get_paper_by_id\<close> lets the exception through: its \<open>try\<close> is inside the statement
  that opens the session.
\<close>

theorem get_by_id_propagates:
  "snd (get_paper_by_id closed_driver three_papers ''a'') = Inl (LibraryError ''Driver closed'')
   \<and> snd (snd (store_paper closed_driver three_papers paper_a)) = Inr False
   \<and> snd (query_papers closed_driver three_papers ''quantum'' 2020 10) = Inr []
   \<and> snd (get_related_papers closed_driver three_papers ''a'' 5) = Inr []
   \<and> snd (snd (handler_store_paper closed_driver three_papers full_text_paper)) = Inr False"
  by (simp add: get_paper_by_id_def closed_driver_def store_paper_def store_paper_try_def
      query_papers_def get_related_papers_def read_try_def handler_store_paper_def)

lemma db_agent_swallows_errors:
  "(\<exists>g' evs ok. store_paper drv g paper = (g', evs, Inr ok))
   \<and> (\<exists>evs rs. query_papers drv g topic start_year limit = (evs, Inr rs))
   \<and> (\<exists>evs rs. get_related_papers drv g paper_id limit = (evs, Inr rs))
   \<and> (\<exists>g' evs ok. handler_store_paper drv g hpaper = (g', evs, Inr ok))"
  by (auto simp: store_paper_def query_papers_def get_related_papers_def
      handler_store_paper_def split: prod.splits sum.splits option.splits)

lemma storage_error_gives_failure:
  assumes "session_raises drv = Some e \<or> run_raises drv = Some e"
  shows "snd (snd (store_paper drv g paper)) = Inr False"
    and "fst (store_paper drv g paper) = g"
    and "snd (query_papers drv g topic start_year limit) = Inr []"
    and "snd (get_related_papers drv g paper_id limit) = Inr []"
    and "snd (snd (handler_store_paper drv g hpaper)) = Inr False"
  using assms
  by (auto simp: store_paper_def store_paper_try_def query_papers_def get_related_papers_def
      read_try_def handler_store_paper_def handler_create_paper_tx_def
      split: prod.splits sum.splits option.splits)

text \<open>
  With the synchronous driver no call of \<open>get_paper_by_id\<close> returns: each raises, either
  the error of opening the session or the \<open>TypeError\<close> of entering \<open>async with\<close>.
\<close>

lemma get_paper_by_id_always_raises:
  "\<exists>e. get_paper_by_id drv g paper_id = ([], Inl e)"
  by (simp add: get_paper_by_id_def split: option.splits)

section \<open>Keyword search\<close>

lemma set_collect_distinct [simp]: "set (collect_distinct xs) = set xs"
  by (induction xs rule: collect_distinct.induct) auto

lemma distinct_collect_distinct [simp]: "distinct (collect_distinct xs)"
  by (induction xs rule: collect_distinct.induct) auto

lemma sorted_wrt_collect_distinct:
  "sorted_wrt R xs \<Longrightarrow> sorted_wrt R (collect_distinct xs)"
  by (induction xs rule: collect_distinct.induct) (auto simp: sorted_wrt_filter)

lemma in_expand_authors_keywords:
  "(p, a, k) \<in> set (expand_authors_keywords g rows)
     \<longleftrightarrow> p \<in> set rows \<and> a \<in> set (authors_of g p) \<and> k \<in> set (keywords_of g p)"
  by (auto simp: expand_authors_keywords_def)

lemma return_papers_row:
  assumes "r \<in> set (return_papers g rows)"
  shows "\<exists>row \<in> set rows. r = paper_of_group g rows (row_key_of g row)"
  using assms by (auto simp: return_papers_def)

lemma paper_of_group_fields:
  "dp_id (paper_of_group g rows key) = fst key"
  "dp_title (paper_of_group g rows key) = fst (snd key)"
  "dp_summary (paper_of_group g rows key) = fst (snd (snd key))"
  "dp_year (paper_of_group g rows key) = fst (snd (snd (snd key)))"
  "dp_url (paper_of_group g rows key) = snd (snd (snd (snd key)))"
  "set (dp_authors (paper_of_group g rows key))
     = (\<lambda>row. fst (snd row)) ` {row \<in> set rows. row_key_of g row = key}"
  "\<exists>ks. dp_keywords (paper_of_group g rows key) = Some ks
        \<and> set ks = (\<lambda>row. snd (snd row)) ` {row \<in> set rows. row_key_of g row = key}"
  by (auto simp: paper_of_group_def Let_def split: prod.splits)

lemma node_key_inj:
  assumes "unique_ids g" "p < length (paper_nodes g)" "q < length (paper_nodes g)"
    and "node_key (paper_nodes g ! p) = node_key (paper_nodes g ! q)"
  shows "p = q"
proof -
  have "n_id (paper_nodes g ! p) = n_id (paper_nodes g ! q)"
    using assms(4) by (simp add: node_key_def)
  then have "map n_id (paper_nodes g) ! p = map n_id (paper_nodes g) ! q"
    using assms(2,3) by simp
  moreover have "distinct (map n_id (paper_nodes g))" using assms(1) by (simp add: unique_ids_def)
  moreover have "p < length (map n_id (paper_nodes g))" "q < length (map n_id (paper_nodes g))"
    using assms(2,3) by simp_all
  ultimately show ?thesis by (simp only: nth_eq_iff_index_eq)
qed

text \<open>The group of a row, when ids are unique, is the set of the rows of its node.\<close>

lemma group_of_node:
  assumes u: "unique_ids g" and rows: "set rows \<subseteq> {p. p < length (paper_nodes g)}"
    and p: "p \<in> set rows"
  shows "{row \<in> set (expand_authors_keywords g rows). row_key_of g row = node_key (paper_nodes g ! p)}
         = {p} \<times> set (authors_of g p) \<times> set (keywords_of g p)"
proof -
  have "\<And>q. q \<in> set rows \<Longrightarrow>
          node_key (paper_nodes g ! q) = node_key (paper_nodes g ! p) \<longleftrightarrow> q = p"
    using node_key_inj [OF u] rows p by blast
  then show ?thesis
    by (auto simp: in_expand_authors_keywords row_key_of_def p)
qed

lemma image_middle: "B \<noteq> {} \<Longrightarrow> (\<lambda>row. fst (snd row)) ` ({p} \<times> A \<times> B) = A"
proof -
  assume "B \<noteq> {}"
  then obtain b where "b \<in> B" by blast
  show ?thesis
  proof (rule set_eqI)
    fix a
    show "a \<in> (\<lambda>row. fst (snd row)) ` ({p} \<times> A \<times> B) \<longleftrightarrow> a \<in> A"
    proof
      assume "a \<in> (\<lambda>row. fst (snd row)) ` ({p} \<times> A \<times> B)"
      then show "a \<in> A" by auto
    next
      assume "a \<in> A"
      then have "(p, a, b) \<in> {p} \<times> A \<times> B" using \<open>b \<in> B\<close> by simp
      then show "a \<in> (\<lambda>row. fst (snd row)) ` ({p} \<times> A \<times> B)" by force
    qed
  qed
qed

lemma image_last: "A \<noteq> {} \<Longrightarrow> (\<lambda>row. snd (snd row)) ` ({p} \<times> A \<times> B) = B"
proof -
  assume "A \<noteq> {}"
  then obtain a where "a \<in> A" by blast
  show ?thesis
  proof (rule set_eqI)
    fix b
    show "b \<in> (\<lambda>row. snd (snd row)) ` ({p} \<times> A \<times> B) \<longleftrightarrow> b \<in> B"
    proof
      assume "b \<in> (\<lambda>row. snd (snd row)) ` ({p} \<times> A \<times> B)"
      then show "b \<in> B" by auto
    next
      assume "b \<in> B"
      then have "(p, a, b) \<in> {p} \<times> A \<times> B" using \<open>a \<in> A\<close> by simp
      then show "b \<in> (\<lambda>row. snd (snd row)) ` ({p} \<times> A \<times> B)" by force
    qed
  qed
qed

lemma returned_paper:
  assumes "r \<in> set (return_papers g (expand_authors_keywords g rows))"
    and rows: "set rows \<subseteq> {p. p < length (paper_nodes g)}"
  shows "\<exists>p \<in> set rows.
           dp_id r = n_id (paper_nodes g ! p) \<and> dp_title r = n_title (paper_nodes g ! p)
         \<and> dp_summary r = n_summary (paper_nodes g ! p)
         \<and> dp_year r = n_year (paper_nodes g ! p) \<and> dp_url r = n_url (paper_nodes g ! p)
         \<and> authors_of g p \<noteq> [] \<and> keywords_of g p \<noteq> []
         \<and> set (authors_of g p) \<subseteq> set (dp_authors r)
         \<and> (\<exists>ks. dp_keywords r = Some ks \<and> set (keywords_of g p) \<subseteq> set ks)
         \<and> (unique_ids g \<longrightarrow>
              set (dp_authors r) = set (authors_of g p)
              \<and> (\<exists>ks. dp_keywords r = Some ks \<and> set ks = set (keywords_of g p)))"
proof -
  let ?rows = "expand_authors_keywords g rows"
  from return_papers_row [OF assms(1)] obtain row
    where row: "row \<in> set ?rows" and r: "r = paper_of_group g ?rows (row_key_of g row)"
    by blast
  obtain p a k where pak: "row = (p, a, k)" by (cases row)
  have mem: "p \<in> set rows" "a \<in> set (authors_of g p)" "k \<in> set (keywords_of g p)"
    using row pak by (simp_all add: in_expand_authors_keywords)
  have key: "row_key_of g row = node_key (paper_nodes g ! p)"
    by (simp add: row_key_of_def pak)
  have ne: "authors_of g p \<noteq> []" "keywords_of g p \<noteq> []" using mem by auto
  have fields: "dp_id r = n_id (paper_nodes g ! p)" "dp_title r = n_title (paper_nodes g ! p)"
    "dp_summary r = n_summary (paper_nodes g ! p)" "dp_year r = n_year (paper_nodes g ! p)"
    "dp_url r = n_url (paper_nodes g ! p)"
    by (simp_all add: r key paper_of_group_fields node_key_def)
  have joined: "set (dp_authors r) = set (authors_of g p)
      \<and> (\<exists>ks. dp_keywords r = Some ks \<and> set ks = set (keywords_of g p))" if u: "unique_ids g"
  proof -
    have grp: "{row \<in> set ?rows. row_key_of g row = node_key (paper_nodes g ! p)}
         = {p} \<times> set (authors_of g p) \<times> set (keywords_of g p)"
      by (rule group_of_node [OF u rows mem(1)])
    have nes: "set (authors_of g p) \<noteq> {}" "set (keywords_of g p) \<noteq> {}" using ne by simp_all
    have "set (dp_authors r)
          = (\<lambda>row. fst (snd row)) ` ({p} \<times> set (authors_of g p) \<times> set (keywords_of g p))"
      by (simp add: r key paper_of_group_fields(6) grp)
    also have "\<dots> = set (authors_of g p)" by (rule image_middle [OF nes(2)])
    finally have a: "set (dp_authors r) = set (authors_of g p)" .
    obtain ks where ks: "dp_keywords r = Some ks"
      "set ks = (\<lambda>row. snd (snd row)) ` ({p} \<times> set (authors_of g p) \<times> set (keywords_of g p))"
      using paper_of_group_fields(7) [of g ?rows "row_key_of g row"] by (auto simp: r key grp)
    have "set ks = set (keywords_of g p)" by (simp only: ks(2) image_last [OF nes(1)])
    then show ?thesis using a ks(1) by blast
  qed
  have sub_a: "set (authors_of g p) \<subseteq> set (dp_authors r)"
  proof
    fix a' assume "a' \<in> set (authors_of g p)"
    then have "(p, a', k) \<in> {row \<in> set ?rows. row_key_of g row = row_key_of g row}"
      using mem by (simp add: in_expand_authors_keywords)
    moreover have "row_key_of g (p, a', k) = row_key_of g row" by (simp add: row_key_of_def pak)
    ultimately have "(p, a', k) \<in> {x \<in> set ?rows. row_key_of g x = row_key_of g row}" by simp
    then have "fst (snd (p, a', k)) \<in> set (dp_authors r)"
      unfolding r paper_of_group_fields(6) by (rule imageI)
    then show "a' \<in> set (dp_authors r)" by simp
  qed
  obtain ks where ks: "dp_keywords r = Some ks"
    "set ks = (\<lambda>x. snd (snd x)) ` {x \<in> set ?rows. row_key_of g x = row_key_of g row}"
    using paper_of_group_fields(7) [of g ?rows "row_key_of g row"] by (auto simp: r)
  have sub_k: "set (keywords_of g p) \<subseteq> set ks"
  proof
    fix k' assume "k' \<in> set (keywords_of g p)"
    then have "(p, a, k') \<in> set ?rows" using mem by (simp add: in_expand_authors_keywords)
    moreover have "row_key_of g (p, a, k') = row_key_of g row" by (simp add: row_key_of_def pak)
    ultimately have "(p, a, k') \<in> {x \<in> set ?rows. row_key_of g x = row_key_of g row}" by simp
    then have "snd (snd (p, a, k')) \<in> set ks" unfolding ks(2) by (rule imageI)
    then show "k' \<in> set ks" by simp
  qed
  show ?thesis using mem(1) fields ne joined sub_a sub_k ks(1) by blast
qed


lemma set_authors_of: "set (authors_of g p) = {a. (a, p) \<in> set (authored g)}"
  by (force simp: authors_of_def)

lemma set_keywords_of: "set (keywords_of g p) = {k. (p, k) \<in> set (has_keyword g)}"
  by (force simp: keywords_of_def)

lemma node_matches_iff:
  "node_matches n topic start_year \<longleftrightarrow>
     (\<exists>y. n_year n = Some y \<and> start_year \<le> y)
     \<and> ((\<exists>t pre suf. n_title n = Some t \<and> t = pre @ topic @ suf)
        \<or> (\<exists>s pre suf. n_summary n = Some s \<and> s = pre @ topic @ suf))"
  by (auto simp: node_matches_def contains_iff split: option.splits)

lemma query_papers_cases:
  assumes "snd (query_papers drv g topic start_year limit) = Inr rs"
  shows "rs = [] \<or> rs = take (nat limit) (sort_key year_desc (return_papers g
           (expand_authors_keywords g
              (filter (\<lambda>p. node_matches (paper_nodes g ! p) topic start_year)
                 [0 ..< length (paper_nodes g)]))))"
  using assms
  by (auto simp: query_papers_def read_try_def query_papers_tx_def Let_def
      split: sum.splits option.splits if_splits)

lemma sorted_years:
  assumes s: "sorted (map year_desc rs)" and y: "\<forall>r \<in> set rs. \<exists>y. dp_year r = Some y"
  shows "\<exists>ys. map dp_year rs = map Some ys \<and> sorted_wrt (\<ge>) ys"
proof (intro exI conjI)
  show "map dp_year rs = map Some (map (\<lambda>r. the (dp_year r)) rs)"
    using y by (auto simp: comp_def)
  have "sorted_wrt (\<lambda>a b. year_desc a \<le> year_desc b) rs"
    using s by (simp add: sorted_map)
  then have "sorted_wrt (\<lambda>a b. the (dp_year a) \<ge> the (dp_year b)) rs"
  proof (rule sorted_wrt_mono_rel [rotated])
    fix a b assume ab: "a \<in> set rs" "b \<in> set rs" "year_desc a \<le> year_desc b"
    obtain ya yb where "dp_year a = Some ya" "dp_year b = Some yb" using y ab(1,2) by blast
    then show "the (dp_year a) \<ge> the (dp_year b)"
      using ab(3) by (simp add: year_desc_def)
  qed
  then show "sorted_wrt (\<ge>) (map (\<lambda>r. the (dp_year r)) rs)"
    by (simp add: sorted_wrt_map)
qed

text \<open>
  Claim C4. Every paper returned by the search for a topic, a minimum year and a limit
  carries the properties of a Paper node whose year is at least the minimum year and
  whose title or summary contains the topic as a substring (compared character by
  character, so case-sensitively); it comes with at least one author and one keyword,
  with all authors and keywords related to that node, and with exactly those when ids
  are unique; the results are in descending order of year and there are at most
  \<open>limit\<close> of them.
\<close>

theorem query_papers_sound:
  assumes "snd (query_papers drv g topic start_year limit) = Inr rs"
  shows "length rs \<le> nat limit
       \<and> (\<exists>ys. map dp_year rs = map Some ys \<and> sorted_wrt (\<ge>) ys)
       \<and> (\<forall>r \<in> set rs. \<exists>p < length (paper_nodes g).
            dp_id r = n_id (paper_nodes g ! p) \<and> dp_title r = n_title (paper_nodes g ! p)
          \<and> dp_summary r = n_summary (paper_nodes g ! p)
          \<and> dp_year r = n_year (paper_nodes g ! p) \<and> dp_url r = n_url (paper_nodes g ! p)
          \<and> (\<exists>y. dp_year r = Some y \<and> start_year \<le> y)
          \<and> ((\<exists>t pre suf. dp_title r = Some t \<and> t = pre @ topic @ suf)
             \<or> (\<exists>s pre suf. dp_summary r = Some s \<and> s = pre @ topic @ suf))
          \<and> dp_authors r \<noteq> []
          \<and> {a. (a, p) \<in> set (authored g)} \<subseteq> set (dp_authors r)
          \<and> (\<exists>ks. dp_keywords r = Some ks \<and> ks \<noteq> []
                  \<and> {k. (p, k) \<in> set (has_keyword g)} \<subseteq> set ks
                  \<and> (unique_ids g \<longrightarrow>
                        set (dp_authors r) = {a. (a, p) \<in> set (authored g)}
                        \<and> set ks = {k. (p, k) \<in> set (has_keyword g)})))"
proof -
  let ?rows1 = "filter (\<lambda>p. node_matches (paper_nodes g ! p) topic start_year)
                 [0 ..< length (paper_nodes g)]"
  let ?all = "return_papers g (expand_authors_keywords g ?rows1)"
  have rows1: "set ?rows1 \<subseteq> {p. p < length (paper_nodes g)}" by auto
  have each: "\<exists>p < length (paper_nodes g).
            dp_id r = n_id (paper_nodes g ! p) \<and> dp_title r = n_title (paper_nodes g ! p)
          \<and> dp_summary r = n_summary (paper_nodes g ! p)
          \<and> dp_year r = n_year (paper_nodes g ! p) \<and> dp_url r = n_url (paper_nodes g ! p)
          \<and> (\<exists>y. dp_year r = Some y \<and> start_year \<le> y)
          \<and> ((\<exists>t pre suf. dp_title r = Some t \<and> t = pre @ topic @ suf)
             \<or> (\<exists>s pre suf. dp_summary r = Some s \<and> s = pre @ topic @ suf))
          \<and> dp_authors r \<noteq> []
          \<and> {a. (a, p) \<in> set (authored g)} \<subseteq> set (dp_authors r)
          \<and> (\<exists>ks. dp_keywords r = Some ks \<and> ks \<noteq> []
                  \<and> {k. (p, k) \<in> set (has_keyword g)} \<subseteq> set ks
                  \<and> (unique_ids g \<longrightarrow>
                        set (dp_authors r) = {a. (a, p) \<in> set (authored g)}
                        \<and> set ks = {k. (p, k) \<in> set (has_keyword g)}))"
    if "r \<in> set ?all" for r
  proof -
    from returned_paper [OF that rows1] obtain p where p: "p \<in> set ?rows1"
      and f: "dp_id r = n_id (paper_nodes g ! p)" "dp_title r = n_title (paper_nodes g ! p)"
        "dp_summary r = n_summary (paper_nodes g ! p)"
        "dp_year r = n_year (paper_nodes g ! p)" "dp_url r = n_url (paper_nodes g ! p)"
      and ne: "authors_of g p \<noteq> []" "keywords_of g p \<noteq> []"
      and sa: "set (authors_of g p) \<subseteq> set (dp_authors r)"
      and sk: "\<exists>ks. dp_keywords r = Some ks \<and> set (keywords_of g p) \<subseteq> set ks"
      and j: "unique_ids g \<longrightarrow> set (dp_authors r) = set (authors_of g p)
              \<and> (\<exists>ks. dp_keywords r = Some ks \<and> set ks = set (keywords_of g p))"
      by blast
    have lt: "p < length (paper_nodes g)" and m: "node_matches (paper_nodes g ! p) topic start_year"
      using p by auto
    from sk obtain ks where ks: "dp_keywords r = Some ks" "set (keywords_of g p) \<subseteq> set ks"
      by blast
    have ane: "dp_authors r \<noteq> []" using sa ne(1) by (cases "authors_of g p") auto
    have kne: "ks \<noteq> []" using ks(2) ne(2) by (cases "keywords_of g p") auto
    have m': "(\<exists>y. dp_year r = Some y \<and> start_year \<le> y)
          \<and> ((\<exists>t pre suf. dp_title r = Some t \<and> t = pre @ topic @ suf)
             \<or> (\<exists>s pre suf. dp_summary r = Some s \<and> s = pre @ topic @ suf))"
      using m unfolding node_matches_iff f by blast
    have j': "unique_ids g \<longrightarrow> set (dp_authors r) = {a. (a, p) \<in> set (authored g)}
                        \<and> set ks = {k. (p, k) \<in> set (has_keyword g)}"
      using j ks(1) by (auto simp: set_authors_of set_keywords_of)
    show ?thesis
      using lt f m' ane kne sa ks j' unfolding set_authors_of set_keywords_of by blast
  qed
  from query_papers_cases [OF assms] consider "rs = []" | "rs = take (nat limit) (sort_key year_desc ?all)"
    by blast
  then show ?thesis
  proof cases
    case 1
    then show ?thesis by simp
  next
    case 2
    have len: "length rs \<le> nat limit" by (simp add: 2)
    have sub: "set rs \<subseteq> set ?all"
      using set_take_subset [of "nat limit" "sort_key year_desc ?all"] by (simp add: 2)
    have "sorted (map year_desc (sort_key year_desc ?all))" by (rule sorted_sort_key)
    then have "sorted (take (nat limit) (map year_desc (sort_key year_desc ?all)))"
      by (rule sorted_wrt_take)
    then have srt: "sorted (map year_desc rs)" by (simp add: 2 take_map)
    have "\<forall>r \<in> set rs. \<exists>y. dp_year r = Some y" using each sub by blast
    from sorted_years [OF srt this] len each sub show ?thesis by blast
  qed
qed

theorem query_papers_sound_witness:
  "snd (query_papers ok_driver three_papers ''quantum'' 2020 10) = Inr [paper_b, paper_a]
   \<and> unique_ids three_papers
   \<and> length [paper_b, paper_a] \<le> nat 10
   \<and> (\<exists>ys. map dp_year [paper_b, paper_a] = map Some ys \<and> sorted_wrt (\<ge>) ys)
   \<and> (\<exists>p < length (paper_nodes three_papers).
         dp_id paper_b = n_id (paper_nodes three_papers ! p)
         \<and> (\<exists>y. dp_year paper_b = Some y \<and> 2020 \<le> y)
         \<and> (\<exists>ks. dp_keywords paper_b = Some ks
               \<and> set (dp_authors paper_b) = {a. (a, p) \<in> set (authored three_papers)}
               \<and> set ks = {k. (p, k) \<in> set (has_keyword three_papers)}))
   \<and> (\<exists>p < length (paper_nodes three_papers).
         dp_id paper_a = n_id (paper_nodes three_papers ! p)
         \<and> (\<exists>y. dp_year paper_a = Some y \<and> 2020 \<le> y)
         \<and> (\<exists>ks. dp_keywords paper_a = Some ks
               \<and> set (dp_authors paper_a) = {a. (a, p) \<in> set (authored three_papers)}
               \<and> set ks = {k. (p, k) \<in> set (has_keyword three_papers)}))"
proof -
  have h: "snd (query_papers ok_driver three_papers ''quantum'' 2020 10) = Inr [paper_b, paper_a]"
    by (simp add: query_papers_def read_try_def ok_driver_def query_papers_tx_def
        three_papers_def node_matches_def expand_authors_keywords_def authors_of_def
        keywords_of_def return_papers_def row_key_of_def node_key_def paper_of_group_def
        year_desc_def paper_a_def paper_b_def Let_def)
  have u: "unique_ids three_papers" by (simp add: unique_ids_def three_papers_def)
  note s = query_papers_sound [OF h]
  have b: "paper_b \<in> set [paper_b, paper_a]" and a: "paper_a \<in> set [paper_b, paper_a]"
    by simp_all
  from s have all: "\<forall>r \<in> set [paper_b, paper_a]. \<exists>p < length (paper_nodes three_papers).
         dp_id r = n_id (paper_nodes three_papers ! p)
         \<and> (\<exists>y. dp_year r = Some y \<and> 2020 \<le> y)
         \<and> (\<exists>ks. dp_keywords r = Some ks
               \<and> set (dp_authors r) = {a. (a, p) \<in> set (authored three_papers)}
               \<and> set ks = {k. (p, k) \<in> set (has_keyword three_papers)})"
    using u by fast
  from s have "length [paper_b, paper_a] \<le> nat 10
     \<and> (\<exists>ys. map dp_year [paper_b, paper_a] = map Some ys \<and> sorted_wrt (\<ge>) ys)" by blast
  then show ?thesis using h u bspec [OF all b] bspec [OF all a] by blast
qed

section \<open>Related papers\<close>

lemma in_shared_rows:
  "(r, k) \<in> set (shared_rows g paper_id) \<Longrightarrow>
     r < length (paper_nodes g) \<and> n_id (paper_nodes g ! r) \<noteq> paper_id"
  by (auto simp: shared_rows_def)

lemma in_common_keywords:
  "(p, c) \<in> set (common_keywords g paper_id) \<Longrightarrow>
     p \<in> fst ` set (shared_rows g paper_id)
     \<and> c = length (filter (\<lambda>row. fst row = p) (shared_rows g paper_id))"
  by (auto simp: common_keywords_def Let_def)

lemma get_related_papers_cases:
  assumes "snd (get_related_papers drv g paper_id limit) = Inr rs"
  shows "rs = [] \<or> rs = emitted drv (return_papers g (expand_authors_keywords g
           (map fst (take (nat limit) (sort_key count_desc (common_keywords g paper_id))))))"
proof (cases "read_try drv (get_related_papers_tx drv g paper_id limit)")
  case (Inl e)
  then show ?thesis using assms by (simp add: get_related_papers_def)
next
  case (Inr papers)
  then have "rs = papers" using assms by (simp add: get_related_papers_def)
  moreover have "get_related_papers_tx drv g paper_id limit = Inr papers"
    using Inr by (simp add: read_try_def split: option.splits)
  ultimately show ?thesis
    by (simp add: get_related_papers_tx_def Let_def split: if_splits)
qed

lemma top_valid:
  assumes "p \<in> set (map fst (take n (sort_key count_desc (common_keywords g paper_id))))"
  shows "p < length (paper_nodes g) \<and> n_id (paper_nodes g ! p) \<noteq> paper_id"
proof -
  from assms obtain c where "(p, c) \<in> set (take n (sort_key count_desc (common_keywords g paper_id)))"
    by auto
  then have "(p, c) \<in> set (common_keywords g paper_id)"
    using set_take_subset [of n "sort_key count_desc (common_keywords g paper_id)"] by auto
  then have "p \<in> fst ` set (shared_rows g paper_id)" by (simp add: in_common_keywords)
  then show ?thesis using in_shared_rows by force
qed

lemma length_return_papers:
  "length (return_papers g (expand_authors_keywords g ps)) \<le> length ps"
proof -
  let ?rows = "expand_authors_keywords g ps"
  have "length (return_papers g ?rows) = card (row_key_of g ` set ?rows)"
    by (simp add: return_papers_def distinct_card [symmetric])
  also have "row_key_of g ` set ?rows \<subseteq> (\<lambda>p. node_key (paper_nodes g ! p)) ` set ps"
    by (auto simp: expand_authors_keywords_def row_key_of_def)
  then have "card (row_key_of g ` set ?rows) \<le> card ((\<lambda>p. node_key (paper_nodes g ! p)) ` set ps)"
    by (intro card_mono) auto
  also have "\<dots> \<le> card (set ps)" by (rule card_image_le) simp
  also have "\<dots> \<le> length ps" by (rule card_length)
  finally show ?thesis .
qed


lemma length_filter_concat:
  "length (filter Q (concat xss)) = sum_list (map (\<lambda>xs. length (filter Q xs)) xss)"
  by (induction xss) simp_all

lemma sum_list_indicator:
  "sum_list (map (\<lambda>x. if P x then 1 else 0) xs) = length (filter P xs)"
  by (induction xs) simp_all

lemma count_distinct_edge:
  assumes "distinct es"
  shows "length (filter (\<lambda>e. e = x) es) = (if x \<in> set es then 1 else 0)"
  using assms by (induction es) auto

lemma paper_has_keyword_unique:
  assumes u: "unique_ids g" and p: "p < length (paper_nodes g)"
  shows "paper_has_keyword g (n_id (paper_nodes g ! p)) k \<longleftrightarrow> (p, k) \<in> set (has_keyword g)"
proof
  assume "paper_has_keyword g (n_id (paper_nodes g ! p)) k"
  then obtain e where e: "e \<in> set (has_keyword g)" "fst e < length (paper_nodes g)"
    "n_id (paper_nodes g ! fst e) = n_id (paper_nodes g ! p)" "snd e = k"
    by (auto simp: paper_has_keyword_def list_ex_iff)
  have "node_key (paper_nodes g ! fst e) = node_key (paper_nodes g ! fst e)" by simp
  have "map n_id (paper_nodes g) ! fst e = map n_id (paper_nodes g) ! p"
    using e(2,3) p by simp
  moreover have "distinct (map n_id (paper_nodes g))" using u by (simp add: unique_ids_def)
  moreover have "fst e < length (map n_id (paper_nodes g))" "p < length (map n_id (paper_nodes g))"
    using e(2) p by simp_all
  ultimately have "fst e = p" by (simp only: nth_eq_iff_index_eq)
  then have "e = (p, k)" using e(4) by (cases e) simp
  then show "(p, k) \<in> set (has_keyword g)" using e(1) by simp
next
  assume "(p, k) \<in> set (has_keyword g)"
  then show "paper_has_keyword g (n_id (paper_nodes g ! p)) k"
    using p by (force simp: paper_has_keyword_def list_ex_iff)
qed

lemma distinct_keywords_of:
  assumes "distinct (has_keyword g)"
  shows "distinct (keywords_of g p)"
proof -
  have "inj_on snd (set (filter (\<lambda>e. fst e = p) (has_keyword g)))"
    by (auto simp: inj_on_def)
  then show ?thesis using assms by (simp add: keywords_of_def distinct_map)
qed

text \<open>The number of rows that \<open>count(k)\<close> counts for one related node.\<close>

lemma rows_of_related:
  assumes d: "distinct (has_keyword g)" and m: "match_paper g paper_id = [p0]"
    and p: "p < length (paper_nodes g)" "n_id (paper_nodes g ! p) \<noteq> paper_id"
  shows "length (filter (\<lambda>row. fst row = p) (shared_rows g paper_id))
         = card {k. (p0, k) \<in> set (has_keyword g) \<and> (p, k) \<in> set (has_keyword g)}"
proof -
  let ?E = "has_keyword g"
  let ?valid = "\<lambda>r. r < length (paper_nodes g) \<and> n_id (paper_nodes g ! r) \<noteq> paper_id"
  let ?F = "\<lambda>k. map (\<lambda>r. (r, k)) (filter ?valid (papers_with_keyword g k))"
  have rows: "shared_rows g paper_id = concat (map ?F (keywords_of g p0))"
    by (simp add: shared_rows_def m)
  have one: "length (filter (\<lambda>row. fst row = p) (?F k)) = (if (p, k) \<in> set ?E then 1 else 0)" for k
  proof -
    have "length (filter (\<lambda>row. fst row = p) (?F k))
          = length (filter (\<lambda>r. r = p \<and> ?valid r) (papers_with_keyword g k))"
      by (simp add: filter_map comp_def conj_commute)
    also have "\<dots> = length (filter (\<lambda>r. r = p) (papers_with_keyword g k))"
      using p by (intro arg_cong [where f = length] filter_cong) auto
    also have "\<dots> = length (filter (\<lambda>e. fst e = p \<and> snd e = k) ?E)"
      by (simp add: papers_with_keyword_def filter_map comp_def conj_commute)
    also have "\<dots> = length (filter (\<lambda>e. e = (p, k)) ?E)"
      by (intro arg_cong [where f = length] filter_cong) auto
    also have "\<dots> = (if (p, k) \<in> set ?E then 1 else 0)"
      by (rule count_distinct_edge [OF d])
    finally show ?thesis .
  qed
  have "length (filter (\<lambda>row. fst row = p) (shared_rows g paper_id))
        = sum_list (map (\<lambda>k. if (p, k) \<in> set ?E then 1 else 0) (keywords_of g p0))"
  proof -
    have "map (\<lambda>xs. length (filter (\<lambda>row. fst row = p) xs)) (map ?F (keywords_of g p0))
          = map (\<lambda>k. if (p, k) \<in> set ?E then 1 else 0) (keywords_of g p0)"
      unfolding map_map comp_def by (rule map_cong [OF refl]) (rule one)
    then show ?thesis by (simp only: rows length_filter_concat)
  qed
  also have "\<dots> = length (filter (\<lambda>k. (p, k) \<in> set ?E) (keywords_of g p0))"
    by (rule sum_list_indicator)
  also have "\<dots> = card (set (filter (\<lambda>k. (p, k) \<in> set ?E) (keywords_of g p0)))"
    using distinct_keywords_of [OF d, of p0]
    by (intro distinct_card [symmetric] distinct_filter)
  also have "set (filter (\<lambda>k. (p, k) \<in> set ?E) (keywords_of g p0))
             = {k. (p0, k) \<in> set ?E \<and> (p, k) \<in> set ?E}"
    by (auto simp: set_keywords_of)
  finally show ?thesis .
qed

lemma shared_keyword_count_unique:
  assumes u: "unique_ids g" and p0: "p0 < length (paper_nodes g)"
    and p: "p < length (paper_nodes g)"
  shows "shared_keyword_count g (n_id (paper_nodes g ! p0)) (n_id (paper_nodes g ! p))
         = card {k. (p0, k) \<in> set (has_keyword g) \<and> (p, k) \<in> set (has_keyword g)}"
proof -
  have "shared_keyword_count g (n_id (paper_nodes g ! p0)) (n_id (paper_nodes g ! p))
        = card (set (filter (\<lambda>k. (p0, k) \<in> set (has_keyword g) \<and> (p, k) \<in> set (has_keyword g))
                       (map snd (has_keyword g))))"
    by (simp add: shared_keyword_count_def length_remdups_card_conv
        paper_has_keyword_unique [OF u p0] paper_has_keyword_unique [OF u p])
  also have "set (filter (\<lambda>k. (p0, k) \<in> set (has_keyword g) \<and> (p, k) \<in> set (has_keyword g))
                       (map snd (has_keyword g)))
             = {k. (p0, k) \<in> set (has_keyword g) \<and> (p, k) \<in> set (has_keyword g)}"
    by force
  finally show ?thesis .
qed

lemma common_keywords_count:
  assumes u: "unique_ids g" and d: "unique_keyword_edges g"
    and pc: "(p, c) \<in> set (common_keywords g paper_id)"
  shows "p < length (paper_nodes g)
         \<and> c = shared_keyword_count g paper_id (n_id (paper_nodes g ! p))"
proof -
  have dd: "distinct (has_keyword g)" using d by (simp add: unique_keyword_edges_def)
  from in_common_keywords [OF pc] obtain k
    where pk: "(p, k) \<in> set (shared_rows g paper_id)"
      and c: "c = length (filter (\<lambda>row. fst row = p) (shared_rows g paper_id))"
    by auto
  have p: "p < length (paper_nodes g)" "n_id (paper_nodes g ! p) \<noteq> paper_id"
    using in_shared_rows [OF pk] by simp_all
  have "match_paper g paper_id \<noteq> []" using pk by (auto simp: shared_rows_def)
  then obtain p0 where p0: "p0 < length (paper_nodes g)" "n_id (paper_nodes g ! p0) = paper_id"
    by (auto simp: match_paper_Nil_iff in_set_conv_nth)
  have m: "match_paper g paper_id = [p0]" by (rule match_paper_unique [OF u p0])
  have "c = card {k. (p0, k) \<in> set (has_keyword g) \<and> (p, k) \<in> set (has_keyword g)}"
    unfolding c by (rule rows_of_related [OF dd m p])
  also have "\<dots> = shared_keyword_count g paper_id (n_id (paper_nodes g ! p))"
    using shared_keyword_count_unique [OF u p0(1) p(1)] by (simp add: p0(2))
  finally show ?thesis using p(1) by simp
qed


lemma sorted_wrt_expand:
  assumes "sorted_wrt Q ps" and refl: "\<And>p. Q p p"
  shows "sorted_wrt (\<lambda>r1 r2. Q (fst r1) (fst r2)) (expand_authors_keywords g ps)"
  using assms(1)
proof (induction ps)
  case Nil
  then show ?case by (simp add: expand_authors_keywords_def)
next
  case (Cons p ps)
  let ?block = "concat (map (\<lambda>a. map (\<lambda>k. (p, a, k)) (keywords_of g p)) (authors_of g p))"
  have e: "expand_authors_keywords g (p # ps) = ?block @ expand_authors_keywords g ps"
    by (simp add: expand_authors_keywords_def)
  have b: "\<forall>r \<in> set ?block. fst r = p" by auto
  have "sorted_wrt (\<lambda>r1 r2. True) ?block" by simp
  then have inner: "sorted_wrt (\<lambda>r1 r2. Q (fst r1) (fst r2)) ?block"
  proof (rule sorted_wrt_mono_rel [rotated])
    fix r1 r2 assume "r1 \<in> set ?block" "r2 \<in> set ?block"
    then have "fst r1 = p" "fst r2 = p" using b by blast+
    then show "Q (fst r1) (fst r2)" using refl by simp
  qed
  have rest: "sorted_wrt (\<lambda>r1 r2. Q (fst r1) (fst r2)) (expand_authors_keywords g ps)"
    using Cons by simp
  have cross: "\<forall>r1 \<in> set ?block. \<forall>r2 \<in> set (expand_authors_keywords g ps). Q (fst r1) (fst r2)"
  proof (intro ballI)
    fix r1 r2 assume r1: "r1 \<in> set ?block" and r2: "r2 \<in> set (expand_authors_keywords g ps)"
    have "fst r1 = p" using b r1 by blast
    moreover have "fst r2 \<in> set ps" using r2 by (auto simp: expand_authors_keywords_def)
    ultimately show "Q (fst r1) (fst r2)" using Cons.prems by auto
  qed
  show ?case unfolding e sorted_wrt_append using inner rest cross by blast
qed

lemma sorted_top:
  "sorted_wrt (\<lambda>x y. snd y \<le> snd x) (take n (sort_key count_desc rows))"
proof -
  have "sorted (map count_desc (sort_key count_desc rows))" by (rule sorted_sort_key)
  then have "sorted (take n (map count_desc (sort_key count_desc rows)))"
    by (rule sorted_wrt_take)
  then have "sorted_wrt (\<lambda>x y. count_desc x \<le> count_desc y) (take n (sort_key count_desc rows))"
    by (simp add: take_map sorted_map)
  then show ?thesis by (simp add: count_desc_def)
qed

lemma related_sorted:
  assumes u: "unique_ids g" and d: "unique_keyword_edges g"
  shows "sorted_wrt (\<lambda>a b. shared_keyword_count g paper_id (dp_id b)
                            \<le> shared_keyword_count g paper_id (dp_id a))
           (return_papers g (expand_authors_keywords g
              (map fst (take n (sort_key count_desc (common_keywords g paper_id))))))"
proof -
  let ?top = "take n (sort_key count_desc (common_keywords g paper_id))"
  let ?cnt = "\<lambda>p. shared_keyword_count g paper_id (n_id (paper_nodes g ! p))"
  let ?rows = "expand_authors_keywords g (map fst ?top)"
  have mem: "x \<in> set (common_keywords g paper_id)" if "x \<in> set ?top" for x
    using that set_take_subset [of n "sort_key count_desc (common_keywords g paper_id)"] by auto
  have cnt: "snd x = ?cnt (fst x)" if "x \<in> set ?top" for x
    using common_keywords_count [OF u d, of "fst x" "snd x" paper_id] mem [OF that] by simp
  have "sorted_wrt (\<lambda>x y. ?cnt (fst y) \<le> ?cnt (fst x)) ?top"
  proof (rule sorted_wrt_mono_rel [OF _ sorted_top])
    fix x y assume "x \<in> set ?top" "y \<in> set ?top" "snd y \<le> snd x"
    then show "?cnt (fst y) \<le> ?cnt (fst x)" using cnt by simp
  qed
  then have "sorted_wrt (\<lambda>p q. ?cnt q \<le> ?cnt p) (map fst ?top)"
    by (simp add: sorted_wrt_map)
  then have "sorted_wrt (\<lambda>r1 r2. ?cnt (fst r2) \<le> ?cnt (fst r1)) ?rows"
    by (rule sorted_wrt_expand) simp
  then have "sorted_wrt (\<lambda>k1 k2. shared_keyword_count g paper_id (fst k2)
                                  \<le> shared_keyword_count g paper_id (fst k1))
               (map (row_key_of g) ?rows)"
    by (simp add: sorted_wrt_map row_key_of_def node_key_def)
  then have "sorted_wrt (\<lambda>k1 k2. shared_keyword_count g paper_id (fst k2)
                                  \<le> shared_keyword_count g paper_id (fst k1))
               (collect_distinct (map (row_key_of g) ?rows))"
    by (rule sorted_wrt_collect_distinct)
  then show ?thesis
    by (simp add: return_papers_def sorted_wrt_map paper_of_group_fields(1))
qed

text \<open>
  What holds of the related-papers query on every database: it never returns a paper
  with the queried id and returns at most \<open>limit\<close> papers. On a database that emits
  the groups of the final \<open>RETURN\<close> in the order of their first rows, and in a graph
  with unique paper ids and no doubled HAS\_KEYWORD relationship, the returned papers
  are in descending order of the number of Keyword nodes they share with the queried
  paper.
\<close>

lemma related_papers_members:
  assumes "snd (get_related_papers drv g paper_id limit) = Inr rs"
  shows "paper_id \<notin> set (map dp_id rs)
       \<and> length rs \<le> nat limit
       \<and> ((\<forall>key. group_order drv key = 0) \<and> unique_ids g \<and> unique_keyword_edges g \<longrightarrow>
            sorted_wrt (\<lambda>a b. shared_keyword_count g paper_id (dp_id b)
                               \<le> shared_keyword_count g paper_id (dp_id a)) rs)"
proof -
  let ?top = "take (nat limit) (sort_key count_desc (common_keywords g paper_id))"
  let ?groups = "return_papers g (expand_authors_keywords g (map fst ?top))"
  from get_related_papers_cases [OF assms]
  consider "rs = []" | "rs = emitted drv ?groups"
    by blast
  then show ?thesis
  proof cases
    case 1
    then show ?thesis by simp
  next
    case 2
    have set_rs: "set rs = set ?groups" and len_rs: "length rs = length ?groups"
      by (simp_all add: 2 emitted_def)
    have valid: "set (map fst ?top) \<subseteq> {p. p < length (paper_nodes g)}"
      using top_valid [of _ "nat limit" g paper_id] by blast
    have noself: "paper_id \<notin> set (map dp_id rs)"
    proof
      assume "paper_id \<in> set (map dp_id rs)"
      then obtain r where r: "r \<in> set ?groups" "dp_id r = paper_id"
        using set_rs by auto
      from returned_paper [OF r(1) valid]
      obtain p where "p \<in> set (map fst ?top)" "dp_id r = n_id (paper_nodes g ! p)" by blast
      then show False using top_valid [of p "nat limit" g paper_id] r(2) by simp
    qed
    have "length ?groups \<le> length (map fst ?top)"
      by (rule length_return_papers)
    then have len: "length rs \<le> nat limit" using len_rs by simp
    have "rs = ?groups" if "\<forall>key. group_order drv key = 0"
    proof -
      have "(\<lambda>r. group_order drv (paper_key r)) = (\<lambda>r. 0)"
        using that by (intro ext) blast
      then show ?thesis by (simp only: 2 emitted_def sort_key_const)
    qed
    then show ?thesis
      using noself len related_sorted [of g paper_id "nat limit"] by auto
  qed
qed

text \<open>
  Claim C5 at a concrete database. In the graph of the three papers, paper c shares two
  keywords with paper a and paper b shares one. On a database that emits the groups of
  the final \<open>RETURN\<close> by a hash of the id, the related papers of a come back as b, c:
  not in descending order of the shared keywords. On a database that emits them in the
  order of their first rows they come back as c, b.
\<close>

theorem related_order_lost:
  "snd (get_related_papers hashing_driver three_papers ''a'' 5) = Inr [paper_b, paper_c]
   \<and> shared_keyword_count three_papers ''a'' (dp_id paper_b) = 1
   \<and> shared_keyword_count three_papers ''a'' (dp_id paper_c) = 2
   \<and> \<not> sorted_wrt (\<lambda>a b. shared_keyword_count three_papers ''a'' (dp_id b)
                           \<le> shared_keyword_count three_papers ''a'' (dp_id a))
                    [paper_b, paper_c]
   \<and> snd (get_related_papers ok_driver three_papers ''a'' 5) = Inr [paper_c, paper_b]"
proof -
  have groups: "return_papers three_papers (expand_authors_keywords three_papers
           (map fst (take (nat 5) (sort_key count_desc (common_keywords three_papers ''a'')))))
        = [paper_c, paper_b]"
    by (simp add: common_keywords_def shared_rows_def match_paper_def papers_with_keyword_def
        count_desc_def three_papers_def expand_authors_keywords_def authors_of_def
        keywords_of_def return_papers_def row_key_of_def node_key_def paper_of_group_def
        paper_b_def paper_c_def Let_def)
  have h: "snd (get_related_papers hashing_driver three_papers ''a'' 5) = Inr [paper_b, paper_c]"
    using groups
    by (simp add: get_related_papers_def read_try_def hashing_driver_def
        get_related_papers_tx_def emitted_def paper_key_def id_hash_def
        paper_b_def paper_c_def Let_def)
  have k: "snd (get_related_papers ok_driver three_papers ''a'' 5) = Inr [paper_c, paper_b]"
    using groups
    by (simp add: get_related_papers_def read_try_def ok_driver_def
        get_related_papers_tx_def emitted_def first_row_order_def sort_key_const Let_def)
  have c: "shared_keyword_count three_papers ''a'' (dp_id paper_b) = 1
           \<and> shared_keyword_count three_papers ''a'' (dp_id paper_c) = 2"
    by (simp add: shared_keyword_count_def paper_has_keyword_def three_papers_def
        paper_b_def paper_c_def)
  show ?thesis using h k c by simp
qed

section \<open>The invariants are kept by the upsert\<close>

lemma distinct_merge_item: "distinct xs \<Longrightarrow> distinct (merge_item x xs)"
  by (simp add: merge_item_def)

lemma has_keyword_fold_set_node [simp]:
  "has_keyword (fold (set_node f) rows g) = has_keyword g"
  by (induction rows arbitrary: g) (simp_all add: set_node_def)

lemma has_keyword_fold_merge_author [simp]:
  "has_keyword (fold merge_author rows g) = has_keyword g"
  by (induction rows arbitrary: g) (simp_all add: merge_author_def)

lemma has_keyword_fold_merge_image [simp]:
  "has_keyword (fold merge_image rows g) = has_keyword g"
  by (induction rows arbitrary: g) (simp_all add: merge_image_def)

lemma distinct_fold_merge_keyword:
  "distinct (has_keyword g) \<Longrightarrow> distinct (has_keyword (fold merge_keyword rows g))"
  by (induction rows arbitrary: g) (simp_all add: merge_keyword_def distinct_merge_item)

lemma has_keyword_merge_paper [simp]:
  "has_keyword (fst (merge_paper g pid)) = has_keyword g"
  by (simp add: merge_paper_def)

lemma store_paper_unique_keyword_edges:
  assumes "unique_keyword_edges g"
  shows "unique_keyword_edges (fst (store_paper drv g paper))"
proof -
  have "has_keyword (fold merge_author rows2 (fold (set_node f) rows1 (fst (merge_paper g pid))))
        = has_keyword g" for rows1 rows2 f pid
    by simp
  then have "unique_keyword_edges (fst (create_paper_tx t g paper))" for t
    using assms
    by (simp add: unique_keyword_edges_def create_paper_tx_def Let_def
        distinct_fold_merge_keyword split_beta)
  from this [of "now drv"] show ?thesis using assms
    by (cases "create_paper_tx (now drv) g paper")
      (auto simp: store_paper_def store_paper_try_def split: option.splits)
qed

text \<open>Every graph built by storing papers in an empty database satisfies both invariants.\<close>

lemma stored_graph_invariants:
  "unique_ids (fold (\<lambda>(drv, paper) g. fst (store_paper drv g paper)) stores empty_graph)
   \<and> unique_keyword_edges (fold (\<lambda>(drv, paper) g. fst (store_paper drv g paper)) stores empty_graph)"
proof -
  have "unique_ids g \<and> unique_keyword_edges g \<Longrightarrow>
        unique_ids (fold (\<lambda>(drv, paper) g. fst (store_paper drv g paper)) stores g)
        \<and> unique_keyword_edges (fold (\<lambda>(drv, paper) g. fst (store_paper drv g paper)) stores g)"
    for g
  proof (induction stores arbitrary: g)
    case Nil
    then show ?case by simp
  next
    case (Cons s stores)
    obtain drv paper where s: "s = (drv, paper)" by (cases s)
    have "unique_ids (fst (store_paper drv g paper))
          \<and> unique_keyword_edges (fst (store_paper drv g paper))"
      using Cons.prems store_paper_unique_ids store_paper_unique_keyword_edges by blast
    from Cons.IH [OF this] show ?case by (simp add: s)
  qed
  moreover have "unique_ids empty_graph \<and> unique_keyword_edges empty_graph"
    by (simp add: unique_ids_def unique_keyword_edges_def empty_graph_def)
  ultimately show ?thesis by blast
qed

lemma handler_store_paper_unique_keyword_edges:
  assumes "unique_keyword_edges g"
  shows "unique_keyword_edges (fst (handler_store_paper drv g paper))"
proof -
  have "has_keyword (fold merge_author rows2 (fold (set_node f) rows1 (fst (merge_paper g pid))))
        = has_keyword g" for rows1 rows2 f pid
    by simp
  then have "unique_keyword_edges (fst (handler_create_paper_tx drv g paper))"
    using assms
    by (simp add: unique_keyword_edges_def handler_create_paper_tx_def Let_def
        distinct_fold_merge_keyword split_beta split: option.splits)
  then show ?thesis using assms
    by (cases "handler_create_paper_tx drv g paper")
      (auto simp: handler_store_paper_def split: option.splits)
qed

lemma both_writers_keep_invariants:
  "unique_ids (fold (\<lambda>(drv, paper) g. case paper of
                        Inl a \<Rightarrow> fst (store_paper drv g a)
                      | Inr b \<Rightarrow> fst (handler_store_paper drv g b)) stores empty_graph)
   \<and> unique_keyword_edges (fold (\<lambda>(drv, paper) g. case paper of
                        Inl a \<Rightarrow> fst (store_paper drv g a)
                      | Inr b \<Rightarrow> fst (handler_store_paper drv g b)) stores empty_graph)"
proof -
  let ?step = "\<lambda>(drv, paper) g. case paper of
                        Inl a \<Rightarrow> fst (store_paper drv g a)
                      | Inr b \<Rightarrow> fst (handler_store_paper drv g b)"
  have "unique_ids g \<and> unique_keyword_edges g \<Longrightarrow>
        unique_ids (fold ?step stores g) \<and> unique_keyword_edges (fold ?step stores g)" for g
  proof (induction stores arbitrary: g)
    case Nil
    then show ?case by simp
  next
    case (Cons s stores)
    obtain drv paper where s: "s = (drv, paper)" by (cases s)
    have "unique_ids (?step s g) \<and> unique_keyword_edges (?step s g)"
      using Cons.prems store_paper_unique_ids store_paper_unique_keyword_edges
        handler_store_paper_unique_ids handler_store_paper_unique_keyword_edges
      by (cases paper) (simp_all add: s)
    from Cons.IH [OF this] show ?case by simp
  qed
  moreover have "unique_ids empty_graph \<and> unique_keyword_edges empty_graph"
    by (simp add: unique_ids_def unique_keyword_edges_def empty_graph_def)
  ultimately show ?thesis by blast
qed

end
